theory Spec2Isabelle
  imports Complex_Main
begin

section \<open>Tensors\<close>

text \<open>
  The program of \<^verbatim>\<open>sagemaker/code/inference.py\<close> works on torch tensors. A tensor is
  modelled by its shape, its element function on multi-indices (row-major positions,
  one index per axis) and the one bit of its dtype the code reads
  (\<^verbatim>\<open>is_floating_point()\<close>). Only the elements at multi-indices inside the shape mean
  anything. A view (\<^verbatim>\<open>unsqueeze\<close>, \<^verbatim>\<open>expand\<close>) is a new element function that reads the old
  one, so no element is copied. Index tensors hold Python integers (\<open>int\<close>).

  Errors are values. \<open>ShapeError\<close> is torch's refusal of sizes that do not fit
  (\<^verbatim>\<open>expand\<close>, \<^verbatim>\<open>cat\<close>, \<^verbatim>\<open>scatter_add_\<close>, a linear map), \<open>IndexError\<close> its refusal of
  an index value outside the target extent, \<open>DimError\<close> an axis number outside the rank
  (also Python's list index out of range), \<open>SizeError\<close> a negative extent given to
  \<^verbatim>\<open>torch.zeros\<close>, \<open>EmptyError\<close> \<^verbatim>\<open>max()\<close> of no element, \<open>DtypeError\<close> the refusal
  of \<^verbatim>\<open>scatter_add_\<close> to add a tensor of another dtype, \<open>ValueError\<close> the
  \<^verbatim>\<open>raise ValueError\<close> of \<^verbatim>\<open>scatter\<close>.
\<close>

datatype error =
  ShapeError | IndexError | DimError | SizeError | EmptyError | DtypeError | ValueError

record 'a tensor =
  shape :: "nat list"
  elem :: "nat list \<Rightarrow> 'a"
  is_floating_point :: bool

definition rank :: "'a tensor \<Rightarrow> nat" where
  "rank t = length (shape t)"

definition numel :: "'a tensor \<Rightarrow> nat" where
  "numel t = prod_list (shape t)"

text \<open>All multi-indices of a shape, in row-major order.\<close>

fun indices :: "nat list \<Rightarrow> nat list list" where
  "indices [] = [[]]"
| "indices (n # ns) = concat (map (\<lambda>i. map ((#) i) (indices ns)) [0..<n])"

definition valid_idx :: "nat list \<Rightarrow> nat list \<Rightarrow> bool" where
  "valid_idx s p = list_all2 (<) p s"

text \<open>
  An axis number as torch and Python lists resolve it: a negative one counts from the
  end, and one outside \<open>[-n, n)\<close> is refused.
\<close>

definition resolve_dim :: "nat \<Rightarrow> int \<Rightarrow> error + nat" where
  "resolve_dim n axis =
     (let d = (if axis < 0 then axis + int n else axis)
      in if 0 \<le> d \<and> d < int n then Inr (nat d) else Inl DimError)"

text \<open>\<^verbatim>\<open>t.size(dim)\<close>.\<close>

definition size_at :: "'a tensor \<Rightarrow> int \<Rightarrow> error + nat" where
  "size_at t axis =
     (case resolve_dim (rank t) axis of Inl e \<Rightarrow> Inl e | Inr d \<Rightarrow> Inr (shape t ! d))"

text \<open>
  \<^verbatim>\<open>t.unsqueeze(d)\<close>: a new axis of extent 1 at position \<open>d\<close>, where a negative \<open>d\<close>
  stands for \<open>d + rank + 1\<close>. The code calls it with \<open>0\<close> and \<open>-1\<close> only, which are
  in range for every tensor.
\<close>

definition unsqueeze :: "int \<Rightarrow> 'a tensor \<Rightarrow> 'a tensor" where
  "unsqueeze d t =
     (let k = nat (if d < 0 then d + int (rank t) + 1 else d)
      in t\<lparr>shape := take k (shape t) @ [1] @ drop k (shape t),
            elem := (\<lambda>idx. elem t (take k idx @ drop (Suc k) idx))\<rparr>)"

text \<open>
  \<^verbatim>\<open>t.expand(sizes)\<close>: the sizes may have more axes than \<open>t\<close> (the new ones lead); each
  axis of \<open>t\<close> must have the wanted extent or extent 1, and an axis of extent 1 is read
  at position 0 for every index of the result.
\<close>

definition expand :: "'a tensor \<Rightarrow> nat list \<Rightarrow> error + 'a tensor" where
  "expand t sizes =
     (if length sizes < rank t then Inl ShapeError
      else let k = length sizes - rank t
           in if list_all2 (\<lambda>s z. s = z \<or> s = 1) (shape t) (drop k sizes)
              then Inr (t\<lparr>shape := sizes,
                          elem := (\<lambda>idx. elem t (map2 (\<lambda>s i. if s = 1 then 0 else i)
                                                (shape t) (drop k idx)))\<rparr>)
              else Inl ShapeError)"

text \<open>\<^verbatim>\<open>torch.zeros(size, dtype=...)\<close> and \<^verbatim>\<open>torch.ones(size, dtype=...)\<close>.\<close>

definition zeros :: "int list \<Rightarrow> bool \<Rightarrow> error + ('a::zero) tensor" where
  "zeros sz fl =
     (if list_ex (\<lambda>n. n < 0) sz then Inl SizeError
      else Inr \<lparr>shape = map nat sz, elem = (\<lambda>_. 0), is_floating_point = fl\<rparr>)"

definition ones :: "nat list \<Rightarrow> bool \<Rightarrow> ('a::one) tensor" where
  "ones sz fl = \<lparr>shape = sz, elem = (\<lambda>_. 1), is_floating_point = fl\<rparr>"

text \<open>The elements in row-major order, and \<^verbatim>\<open>t.max()\<close>, which torch refuses on no element.\<close>

definition elems :: "'a tensor \<Rightarrow> 'a list" where
  "elems t = map (elem t) (indices (shape t))"

definition tensor_max :: "('a::linorder) tensor \<Rightarrow> error + 'a" where
  "tensor_max t = (case elems t of [] \<Rightarrow> Inl EmptyError | x # xs \<Rightarrow> Inr (fold max xs x))"

text \<open>
  \<^verbatim>\<open>self.scatter_add_(dim, index, src)\<close>: for every multi-index \<open>idx\<close> of \<open>index\<close>, the
  element of \<open>src\<close> at \<open>idx\<close> is added to the element of \<open>self\<close> at \<open>idx\<close> with its
  \<open>dim\<close> component replaced by \<open>index[idx]\<close>. Torch wants \<open>src\<close> to have the dtype of
  \<open>self\<close> (of the dtype, the model has the floating-point bit), returns \<open>self\<close>
  untouched when \<open>index\<close> has no element, and otherwise wants equal ranks, \<open>index\<close>
  no larger than \<open>src\<close> on every axis and no larger than \<open>self\<close> on every axis but
  \<open>dim\<close>, and every index value inside \<open>self\<close>'s extent at \<open>dim\<close>. A refused call
  returns no tensor, so the bounds are tested for all elements before the additions.
  \<open>scatter_add_nd\<close> is the operation on tensors of rank 1 and more.
\<close>

definition scatter_step ::
  "nat \<Rightarrow> int tensor \<Rightarrow> ('a::plus) tensor \<Rightarrow> nat list \<Rightarrow> (nat list \<Rightarrow> 'a) \<Rightarrow> (nat list \<Rightarrow> 'a)" where
  "scatter_step d index src idx f =
     (let p = idx[d := nat (elem index idx)] in f(p := f p + elem src idx))"

definition scatter_add_nd ::
  "('a::plus) tensor \<Rightarrow> int \<Rightarrow> int tensor \<Rightarrow> 'a tensor \<Rightarrow> error + 'a tensor" where
  "scatter_add_nd self axis index src =
     (case resolve_dim (rank self) axis of Inl e \<Rightarrow> Inl e | Inr d \<Rightarrow>
        if is_floating_point src \<noteq> is_floating_point self then Inl DtypeError
        else if numel index = 0 then Inr self
        else if rank index \<noteq> rank self \<or> rank src \<noteq> rank self then Inl ShapeError
        else if \<not> list_all2 (\<le>) (shape index) (shape src) then Inl ShapeError
        else if \<not> list_all2 (\<le>) ((shape index)[d := 0]) (shape self) then Inl ShapeError
        else if list_ex (\<lambda>idx. elem index idx < 0 \<or> int (shape self ! d) \<le> elem index idx)
                  (indices (shape index)) then Inl IndexError
        else Inr (self\<lparr>elem := fold (scatter_step d index src) (indices (shape index)) (elem self)\<rparr>))"

text \<open>
  Torch takes a tensor of rank 0 in this operation as a tensor of shape \<open>(1)\<close>, so
  that \<open>dim\<close> may be \<open>0\<close> or \<open>-1\<close> for it, and gives the result the shape of \<open>self\<close>.
\<close>

definition as_1d :: "'a tensor \<Rightarrow> 'a tensor" where
  "as_1d t = (if shape t = [] then t\<lparr>shape := [1], elem := (\<lambda>_. elem t [])\<rparr> else t)"

definition scatter_add_inplace ::
  "('a::plus) tensor \<Rightarrow> int \<Rightarrow> int tensor \<Rightarrow> 'a tensor \<Rightarrow> error + 'a tensor" where
  "scatter_add_inplace self axis index src =
     (case scatter_add_nd (as_1d self) axis (as_1d index) (as_1d src) of
        Inl e \<Rightarrow> Inl e
      | Inr r \<Rightarrow>
          Inr (if shape self = [] then r\<lparr>shape := [], elem := (\<lambda>_. elem r [0])\<rparr> else r))"

section \<open>The scatter functions\<close>

text \<open>
  \<^verbatim>\<open>broadcast(src, other, dim)\<close>. \<^verbatim>\<open>range(0, dim)\<close> is empty for a \<open>dim\<close> that is still
  negative after the resolution, and \<^verbatim>\<open>range(src.dim(), other.dim())\<close> is empty when
  \<open>src\<close> has the larger rank.
\<close>

definition broadcast :: "'a tensor \<Rightarrow> 'b tensor \<Rightarrow> int \<Rightarrow> error + 'a tensor" where
  "broadcast src other axis =
     (let axis = (if axis < 0 then int (rank other) + axis else axis);
          src = (if rank src = 1 then (unsqueeze 0 ^^ nat axis) src else src);
          src = (unsqueeze (- 1) ^^ (rank other - rank src)) src
      in expand src (shape other))"

text \<open>
  \<^verbatim>\<open>scatter_sum\<close>. \<open>size[dim] = ...\<close> is an assignment into a Python list, so \<open>dim\<close> is
  resolved as a list index. With \<open>out\<close> given, \<open>dim_size\<close> is not read.
\<close>

definition scatter_sum ::
  "('a::{plus,zero}) tensor \<Rightarrow> int tensor \<Rightarrow> int \<Rightarrow> 'a tensor option \<Rightarrow> int option
     \<Rightarrow> error + 'a tensor" where
  "scatter_sum src index axis out dim_size =
     (case broadcast index src axis of Inl e \<Rightarrow> Inl e | Inr index \<Rightarrow>
        (case out of
           None \<Rightarrow>
             (case resolve_dim (rank src) axis of Inl e \<Rightarrow> Inl e | Inr d \<Rightarrow>
                (case (case dim_size of
                         Some n \<Rightarrow> Inr n
                       | None \<Rightarrow>
                           if numel index = 0 then Inr 0
                           else (case tensor_max index of Inl e \<Rightarrow> Inl e
                                 | Inr m \<Rightarrow> Inr (m + 1))) of
                   Inl e \<Rightarrow> Inl e
                 | Inr n \<Rightarrow>
                     (case zeros ((map int (shape src))[d := n]) (is_floating_point src) of
                        Inl e \<Rightarrow> Inl e
                      | Inr out \<Rightarrow> scatter_add_inplace out axis index src)))
         | Some out \<Rightarrow> scatter_add_inplace out axis index src))"

definition scatter_add ::
  "('a::{plus,zero}) tensor \<Rightarrow> int tensor \<Rightarrow> int \<Rightarrow> 'a tensor option \<Rightarrow> int option
     \<Rightarrow> error + 'a tensor" where
  "scatter_add src index axis out dim_size = scatter_sum src index axis out dim_size"

text \<open>
  \<^verbatim>\<open>scatter_mul\<close>, \<^verbatim>\<open>scatter_min\<close> and \<^verbatim>\<open>scatter_max\<close> hand all their arguments to the
  operators \<^verbatim>\<open>torch.ops.torch_scatter.scatter_mul\<close>, \<^verbatim>\<open>scatter_min\<close> and \<^verbatim>\<open>scatter_max\<close>
  of a native extension that is not part of this program. The operators are a
  parameter of the model.
\<close>

record 'a torch_scatter_ops =
  op_scatter_mul ::
    "'a tensor \<Rightarrow> int tensor \<Rightarrow> int \<Rightarrow> 'a tensor option \<Rightarrow> int option \<Rightarrow> error + 'a tensor"
  op_scatter_min ::
    "'a tensor \<Rightarrow> int tensor \<Rightarrow> int \<Rightarrow> 'a tensor option \<Rightarrow> int option
       \<Rightarrow> error + ('a tensor \<times> int tensor)"
  op_scatter_max ::
    "'a tensor \<Rightarrow> int tensor \<Rightarrow> int \<Rightarrow> 'a tensor option \<Rightarrow> int option
       \<Rightarrow> error + ('a tensor \<times> int tensor)"

definition scatter_mul ::
  "'a torch_scatter_ops \<Rightarrow> 'a tensor \<Rightarrow> int tensor \<Rightarrow> int \<Rightarrow> 'a tensor option \<Rightarrow> int option
     \<Rightarrow> error + 'a tensor" where
  "scatter_mul ops src index axis out dim_size = op_scatter_mul ops src index axis out dim_size"

definition scatter_min ::
  "'a torch_scatter_ops \<Rightarrow> 'a tensor \<Rightarrow> int tensor \<Rightarrow> int \<Rightarrow> 'a tensor option \<Rightarrow> int option
     \<Rightarrow> error + ('a tensor \<times> int tensor)" where
  "scatter_min ops src index axis out dim_size = op_scatter_min ops src index axis out dim_size"

definition scatter_max ::
  "'a torch_scatter_ops \<Rightarrow> 'a tensor \<Rightarrow> int tensor \<Rightarrow> int \<Rightarrow> 'a tensor option \<Rightarrow> int option
     \<Rightarrow> error + ('a tensor \<times> int tensor)" where
  "scatter_max ops src index axis out dim_size = op_scatter_max ops src index axis out dim_size"

text \<open>
  The two in-place divisions of \<^verbatim>\<open>scatter_mean\<close>, element by element. The code calls
  them with a divisor already expanded to the shape of \<open>out\<close>; any other shape is
  refused here. Elements are taken in an Archimedean field: \<^verbatim>\<open>true_divide_\<close> is the
  field's division (floating-point rounding is not modelled) and
  \<^verbatim>\<open>div_(count, rounding_mode='floor')\<close> the floor of the quotient, as on the integers
  an integer tensor holds.
\<close>

definition true_divide_inplace ::
  "('a::floor_ceiling) tensor \<Rightarrow> 'a tensor \<Rightarrow> error + 'a tensor" where
  "true_divide_inplace out count =
     (if shape count = shape out
      then Inr (out\<lparr>elem := (\<lambda>idx. elem out idx / elem count idx)\<rparr>)
      else Inl ShapeError)"

definition div_floor_inplace ::
  "('a::floor_ceiling) tensor \<Rightarrow> 'a tensor \<Rightarrow> error + 'a tensor" where
  "div_floor_inplace out count =
     (if shape count = shape out
      then Inr (out\<lparr>elem := (\<lambda>idx. of_int \<lfloor>elem out idx / elem count idx\<rfloor>)\<rparr>)
      else Inl ShapeError)"

text \<open>\<^verbatim>\<open>count[count < 1] = 1\<close>.\<close>

definition clamp_count :: "('a::{linorder,one}) tensor \<Rightarrow> 'a tensor" where
  "clamp_count count = count\<lparr>elem := (\<lambda>idx. if elem count idx < 1 then 1 else elem count idx)\<rparr>"

text \<open>
  \<^verbatim>\<open>scatter_mean\<close>. The index handed to the second \<^verbatim>\<open>scatter_sum\<close> is the caller's, not
  the broadcast one, which is local to the first call.
\<close>

definition scatter_mean ::
  "('a::floor_ceiling) tensor \<Rightarrow> int tensor \<Rightarrow> int \<Rightarrow> 'a tensor option \<Rightarrow> int option
     \<Rightarrow> error + 'a tensor" where
  "scatter_mean src index axis out dim_size =
     (case scatter_sum src index axis out dim_size of Inl e \<Rightarrow> Inl e | Inr out \<Rightarrow>
        (case size_at out axis of Inl e \<Rightarrow> Inl e | Inr dim_size \<Rightarrow>
           (let index_dim = axis;
                index_dim = (if index_dim < 0 then index_dim + int (rank src) else index_dim);
                index_dim = (if int (rank index) \<le> index_dim then int (rank index) - 1
                             else index_dim);
                ones = ones (shape index) (is_floating_point src)
            in (case scatter_sum ones index index_dim None (Some (int dim_size)) of
                  Inl e \<Rightarrow> Inl e
                | Inr count \<Rightarrow>
                    (case broadcast (clamp_count count) out axis of
                       Inl e \<Rightarrow> Inl e
                     | Inr count \<Rightarrow>
                         if is_floating_point out then true_divide_inplace out count
                         else div_floor_inplace out count)))))"

text \<open>\<^verbatim>\<open>scatter\<close>: the dispatch on the name of the reduction.\<close>

definition scatter ::
  "'a torch_scatter_ops \<Rightarrow> ('a::floor_ceiling) tensor \<Rightarrow> int tensor \<Rightarrow> int \<Rightarrow> 'a tensor option
     \<Rightarrow> int option \<Rightarrow> string \<Rightarrow> error + 'a tensor" where
  "scatter ops src index axis out dim_size reduce =
     (if reduce = ''sum'' \<or> reduce = ''add'' then scatter_sum src index axis out dim_size
      else if reduce = ''mul'' then scatter_mul ops src index axis out dim_size
      else if reduce = ''mean'' then scatter_mean src index axis out dim_size
      else if reduce = ''min'' then
        (case scatter_min ops src index axis out dim_size of
           Inl e \<Rightarrow> Inl e | Inr r \<Rightarrow> Inr (fst r))
      else if reduce = ''max'' then
        (case scatter_max ops src index axis out dim_size of
           Inl e \<Rightarrow> Inl e | Inr r \<Rightarrow> Inr (fst r))
      else Inl ValueError)"

text \<open>
  \<^verbatim>\<open>torch.tensor(...)\<close> of a list and of a list of rows, as \<^verbatim>\<open>model_fn\<close> builds the edge
  tensors.
\<close>

definition tensor1 :: "'a list \<Rightarrow> bool \<Rightarrow> 'a tensor" where
  "tensor1 xs fl = \<lparr>shape = [length xs], elem = (\<lambda>idx. xs ! (idx ! 0)), is_floating_point = fl\<rparr>"

definition tensor2 :: "'a list list \<Rightarrow> bool \<Rightarrow> 'a tensor" where
  "tensor2 rows fl =
     \<lparr>shape = [length rows, length (hd rows)],
      elem = (\<lambda>idx. rows ! (idx ! 0) ! (idx ! 1)), is_floating_point = fl\<rparr>"

text \<open>The axis as the first statement of \<^verbatim>\<open>broadcast\<close> resolves it.\<close>

definition bdim :: "'b tensor \<Rightarrow> int \<Rightarrow> int" where
  "bdim other axis = (if axis < 0 then int (rank other) + axis else axis)"

text \<open>
  The shape of \<open>src\<close> after the two loops of \<^verbatim>\<open>broadcast\<close>: \<open>dim\<close> singleton axes in
  front when \<open>src\<close> is 1-D (none for a negative \<open>dim\<close>), the axes of \<open>src\<close>, and
  singleton axes behind up to the rank of \<open>other\<close>.
\<close>

definition lead_axes :: "'a tensor \<Rightarrow> 'b tensor \<Rightarrow> int \<Rightarrow> nat" where
  "lead_axes src other axis = (if rank src = 1 then nat (bdim other axis) else 0)"

definition padded_shape :: "'a tensor \<Rightarrow> 'b tensor \<Rightarrow> int \<Rightarrow> nat list" where
  "padded_shape src other axis =
     replicate (lead_axes src other axis) 1 @ shape src
       @ replicate (rank other - (lead_axes src other axis + rank src)) 1"

text \<open>The element of a returned tensor at a position, if a tensor is returned.\<close>

definition result_elem :: "error + 'a tensor \<Rightarrow> nat list \<Rightarrow> 'a option" where
  "result_elem r p = (case r of Inl e \<Rightarrow> None | Inr t \<Rightarrow> Some (elem t p))"

section \<open>Multi-indices and views\<close>

lemma set_indices: "set (indices s) = {p. list_all2 (<) p s}"
proof (induction s)
  case Nil
  then show ?case by auto
next
  case (Cons n ns)
  show ?case
  proof (rule set_eqI)
    fix p
    show "p \<in> set (indices (n # ns)) \<longleftrightarrow> p \<in> {p. list_all2 (<) p (n # ns)}"
      using Cons by (cases p) (auto simp: list_all2_Cons2)
  qed
qed

lemma distinct_indices: "distinct (indices s)"
proof (induction s)
  case Nil
  then show ?case by simp
next
  case (Cons n ns)
  have "distinct (concat (map (\<lambda>i. map ((#) i) (indices ns)) [0..<n]))"
  proof (cases "indices ns = []")
    case True
    have "distinct (concat (map (\<lambda>i. []) xs))" for xs :: "nat list"
      by (induction xs) auto
    with True show ?thesis by simp
  next
    case False
    then obtain q where q: "q \<in> set (indices ns)" by (cases "indices ns") auto
    have "inj_on (\<lambda>i. map ((#) i) (indices ns)) (set [0..<n])"
    proof (rule inj_onI)
      fix x y assume "map ((#) x) (indices ns) = map ((#) y) (indices ns)"
      then have "x # q = y # q" using q by (metis (no_types, lifting) map_eq_conv)
      then show "x = y" by simp
    qed
    then have "distinct (map (\<lambda>i. map ((#) i) (indices ns)) [0..<n])"
      by (simp add: distinct_map)
    then show ?thesis
      by (rule distinct_concat) (auto simp: distinct_map Cons inj_on_def)
  qed
  then show ?case by simp
qed

lemma length_indices: "length (indices s) = prod_list s"
  by (induction s) (auto simp: length_concat comp_def sum_list_triv)

lemma fold_scatter_step:
  fixes f :: "nat list \<Rightarrow> 'a::comm_monoid_add"
  shows "fold (scatter_step d index src) xs f p
         = f p + sum_list (map (elem src) (filter (\<lambda>idx. idx[d := nat (elem index idx)] = p) xs))"
  by (induction xs arbitrary: f) (auto simp: scatter_step_def Let_def add.assoc)

lemma unsqueeze0 [simp]:
  "shape (unsqueeze 0 t) = 1 # shape t"
  "elem (unsqueeze 0 t) idx = elem t (tl idx)"
  "is_floating_point (unsqueeze 0 t) = is_floating_point t"
  by (simp_all add: unsqueeze_def drop_Suc)

lemma unsqueeze_last [simp]:
  "shape (unsqueeze (- 1) t) = shape t @ [1]"
  "elem (unsqueeze (- 1) t) idx = elem t (take (rank t) idx @ drop (Suc (rank t)) idx)"
  "is_floating_point (unsqueeze (- 1) t) = is_floating_point t"
  by (simp_all add: unsqueeze_def Let_def rank_def)

lemma unsqueeze_front_shape: "shape ((unsqueeze 0 ^^ k) t) = replicate k 1 @ shape t"
  by (induction k) auto

lemma unsqueeze_front_elem: "elem ((unsqueeze 0 ^^ k) t) idx = elem t (drop k idx)"
  by (induction k arbitrary: idx) (auto simp: drop_Suc drop_tl)

lemma unsqueeze_front_fp: "is_floating_point ((unsqueeze 0 ^^ k) t) = is_floating_point t"
  by (induction k) auto

lemma unsqueeze_back_shape: "shape ((unsqueeze (- 1) ^^ m) t) = shape t @ replicate m 1"
  by (induction m) (auto simp: replicate_append_same)

lemma unsqueeze_back_fp: "is_floating_point ((unsqueeze (- 1) ^^ m) t) = is_floating_point t"
  by (induction m) auto

lemma unsqueeze_back_elem:
  "length idx = rank t + m \<Longrightarrow> elem ((unsqueeze (- 1) ^^ m) t) idx = elem t (take (rank t) idx)"
proof (induction m arbitrary: idx)
  case 0
  then show ?case by simp
next
  case (Suc m)
  let ?u = "(unsqueeze (- 1) ^^ m) t"
  have r: "rank ?u = rank t + m" by (simp add: rank_def unsqueeze_back_shape)
  have "elem (unsqueeze (- 1) ?u) idx = elem ?u (take (rank t + m) idx)"
    using Suc.prems by (simp add: r)
  also have "\<dots> = elem t (take (rank t) (take (rank t + m) idx))"
    using Suc.prems by (intro Suc.IH) simp
  finally show ?case by (simp add: min_def)
qed

lemma expand_same_rank:
  "length sizes = rank t \<Longrightarrow>
   expand t sizes =
     (if list_all2 (\<lambda>s z. s = z \<or> s = 1) (shape t) sizes
      then Inr (t\<lparr>shape := sizes,
                  elem := (\<lambda>idx. elem t (map2 (\<lambda>s i. if s = 1 then 0 else i) (shape t) idx))\<rparr>)
      else Inl ShapeError)"
  by (simp add: expand_def)

lemma take1_drop: "d < length xs \<Longrightarrow> take (Suc 0) (drop d xs) = [xs ! d]"
  by (metis Cons_nth_drop_Suc take0 take_Suc_Cons)

lemma map2_pad_nth:
  assumes "length idx = d + 1 + m"
  shows "take (Suc 0) (drop d (map2 (\<lambda>s i. if s = 1 then 0 else i)
                 (replicate d 1 @ [n] @ replicate m 1) idx))
         = [if n = (1::nat) then 0 else idx ! d]"
proof -
  let ?xs = "map2 (\<lambda>s i. if s = 1 then 0 else i) (replicate d 1 @ [n] @ replicate m 1) idx"
  have len: "d < length ?xs" using assms by simp
  have "?xs ! d = (if n = 1 then 0 else idx ! d)"
    using assms by (simp add: nth_append)
  with take1_drop[OF len] show ?thesis by simp
qed

lemma pad_all2:
  assumes "length sz = d + 1 + m"
  shows "list_all2 (\<lambda>s z. s = z \<or> s = 1) (replicate d 1 @ [n] @ replicate m 1) sz
         \<longleftrightarrow> (n = sz ! d \<or> n = (1::nat))"
proof -
  have "list_all2 (\<lambda>s z. s = z \<or> s = 1) (replicate d 1 @ [n] @ replicate m 1) sz
        \<longleftrightarrow> (\<forall>i < d + 1 + m. (replicate d 1 @ [n] @ replicate m 1) ! i = sz ! i
                 \<or> (replicate d 1 @ [n] @ replicate m 1) ! i = 1)"
    using assms by (simp add: list_all2_conv_all_nth)
  also have "\<dots> \<longleftrightarrow> (n = sz ! d \<or> n = 1)"
  proof
    assume h: "\<forall>i < d + 1 + m. (replicate d 1 @ [n] @ replicate m 1) ! i = sz ! i
                 \<or> (replicate d 1 @ [n] @ replicate m 1) ! i = 1"
    have "d < d + 1 + m" by simp
    with h have "(replicate d 1 @ [n] @ replicate m 1) ! d = sz ! d
                 \<or> (replicate d 1 @ [n] @ replicate m 1) ! d = 1" by blast
    then show "n = sz ! d \<or> n = 1" by (simp add: nth_append)
  next
    assume h: "n = sz ! d \<or> n = 1"
    show "\<forall>i < d + 1 + m. (replicate d 1 @ [n] @ replicate m 1) ! i = sz ! i
                 \<or> (replicate d 1 @ [n] @ replicate m 1) ! i = 1"
    proof (intro allI impI)
      fix i assume "i < d + 1 + m"
      then consider "i < d" | "i = d" | "d < i" "i - d - 1 < m" by linarith
      then show "(replicate d 1 @ [n] @ replicate m 1) ! i = sz ! i
                 \<or> (replicate d 1 @ [n] @ replicate m 1) ! i = 1"
      proof cases
        case 1 then show ?thesis by (simp add: nth_append)
      next
        case 2 then show ?thesis using h by (simp add: nth_append)
      next
        case 3 then show ?thesis by (simp add: nth_append nth_Cons')
      qed
    qed
  qed
  finally show ?thesis .
qed

lemma broadcast_1d:
  assumes s: "shape src = [n]" and d0: "0 \<le> bdim other axis" and d1: "bdim other axis < int (rank other)"
  defines "d \<equiv> nat (bdim other axis)"
  shows "(n = shape other ! d \<or> n = 1 \<longrightarrow>
            (\<exists>r. broadcast src other axis = Inr r \<and> shape r = shape other
                 \<and> is_floating_point r = is_floating_point src
                 \<and> (\<forall>idx. length idx = rank other \<longrightarrow>
                        elem r idx = elem src [if n = 1 then 0 else idx ! d])))
         \<and> (\<not> (n = shape other ! d \<or> n = 1) \<longrightarrow> broadcast src other axis = Inl ShapeError)"
proof -
  let ?a = "(unsqueeze 0 ^^ d) src"
  let ?m = "rank other - (Suc d)"
  let ?b = "(unsqueeze (- 1) ^^ ?m) ?a"
  have dlt: "d < rank other" using d0 d1 by (simp add: d_def)
  have ra: "rank ?a = Suc d" by (simp add: rank_def unsqueeze_front_shape s)
  have sb: "shape ?b = replicate d 1 @ [n] @ replicate ?m 1"
    by (simp add: unsqueeze_back_shape unsqueeze_front_shape s)
  have lb: "length (shape ?b) = rank other" using dlt by (simp add: sb)
  have rb: "rank ?b = rank other" by (subst rank_def) (rule lb)
  have bc: "broadcast src other axis = expand ?b (shape other)"
    using s by (simp add: broadcast_def Let_def rank_def bdim_def d_def unsqueeze_front_shape)
  have c: "list_all2 (\<lambda>s z. s = z \<or> s = 1) (shape ?b) (shape other)
           \<longleftrightarrow> (n = shape other ! d \<or> n = 1)"
    unfolding sb by (rule pad_all2) (use dlt in \<open>simp add: rank_def\<close>)
  have lo: "length (shape other) = rank ?b" unfolding rb by (simp add: rank_def)
  have ex: "expand ?b (shape other) =
     (if n = shape other ! d \<or> n = 1
      then Inr (?b\<lparr>shape := shape other,
                  elem := (\<lambda>idx. elem ?b (map2 (\<lambda>s i. if s = 1 then 0 else i) (shape ?b) idx))\<rparr>)
      else Inl ShapeError)"
    unfolding expand_same_rank[OF lo] c by (rule refl)
  have el: "elem ?b (map2 (\<lambda>s i. if s = 1 then 0 else i) (shape ?b) idx)
            = elem src [if n = 1 then 0 else idx ! d]" if l: "length idx = rank other" for idx
  proof -
    let ?xs = "map2 (\<lambda>s i. if s = 1 then 0 else i) (shape ?b) idx"
    have lx: "length ?xs = rank ?a + ?m" using l dlt by (simp add: sb ra)
    have li: "length idx = Suc d + ?m" using l dlt by simp
    have "elem ?b ?xs = elem ?a (take (Suc d) ?xs)"
      using unsqueeze_back_elem[OF lx] by (simp add: ra)
    also have "\<dots> = elem src (drop d (take (Suc d) ?xs))"
      by (simp add: unsqueeze_front_elem)
    also have "drop d (take (Suc d) ?xs) = take (Suc 0) (drop d ?xs)"
      by (simp add: drop_take)
    also have "\<dots> = [if n = 1 then 0 else idx ! d]"
      unfolding sb by (rule map2_pad_nth) (use li in simp)
    finally show ?thesis .
  qed
  show ?thesis
    unfolding bc ex using el
    by (auto simp: unsqueeze_back_fp unsqueeze_front_fp)
qed

section \<open>Broadcasting\<close>

lemma broadcast_fp: "broadcast a b axis = Inr r \<Longrightarrow> is_floating_point r = is_floating_point a"
  by (auto simp: broadcast_def expand_def Let_def unsqueeze_back_fp unsqueeze_front_fp
           split: if_splits)

lemma broadcast_mismatch:
  assumes r1: "rank src \<noteq> 1" and d: "d < rank src"
      and m: "shape src ! d \<noteq> 1" "shape src ! d \<noteq> shape other ! d"
  shows "broadcast src other axis = Inl ShapeError"
proof -
  let ?b = "(unsqueeze (- 1) ^^ (rank other - rank src)) src"
  have bc: "broadcast src other axis = expand ?b (shape other)"
    using r1 by (simp add: broadcast_def Let_def)
  have sb: "shape ?b = shape src @ replicate (rank other - rank src) 1"
    by (rule unsqueeze_back_shape)
  show ?thesis
  proof (cases "length (shape other) < rank ?b")
    case True
    then show ?thesis by (simp add: bc expand_def)
  next
    case False
    have "length (shape ?b) = length (shape src) + (rank other - rank src)" by (simp add: sb)
    with False have k: "length (shape other) - rank ?b = 0" by (simp add: rank_def)
    have nd: "shape ?b ! d = shape src ! d" using d unfolding sb by (simp add: nth_append rank_def)
    have dl: "d < length (shape ?b)" using d unfolding sb by (simp add: rank_def)
    have "\<not> list_all2 (\<lambda>s z. s = z \<or> s = 1) (shape ?b) (shape other)"
    proof
      assume "list_all2 (\<lambda>s z. s = z \<or> s = 1) (shape ?b) (shape other)"
      from list_all2_nthD[OF this dl] nd m show False by simp
    qed
    with False k show ?thesis by (simp add: bc expand_def Let_def)
  qed
qed

lemma rank_unsqueeze_front: "rank ((unsqueeze 0 ^^ k) t) = k + rank t"
  by (simp add: rank_def unsqueeze_front_shape)

lemma unsqueeze_overwrite:
  "((unsqueeze d ^^ k) t)\<lparr>shape := s, elem := f\<rparr> = t\<lparr>shape := s, elem := f\<rparr>"
proof (induction k)
  case 0
  show ?case by simp
next
  case (Suc k)
  have "(unsqueeze d u)\<lparr>shape := s, elem := f\<rparr> = u\<lparr>shape := s, elem := f\<rparr>" for u :: "'a tensor"
    by (simp add: unsqueeze_def Let_def)
  with Suc show ?case by simp
qed

lemma broadcast_general:
  fixes src :: "'a tensor" and other :: "'b tensor" and axis :: int
  defines "l \<equiv> lead_axes src other axis"
  defines "ps \<equiv> padded_shape src other axis"
  shows "broadcast src other axis =
     (if list_all2 (\<lambda>s z. s = z \<or> s = 1) ps (shape other)
      then Inr (src\<lparr>shape := shape other,
                   elem := (\<lambda>idx. elem ((unsqueeze (- 1) ^^ (rank other - (l + rank src)))
                                          ((unsqueeze 0 ^^ l) src))
                                    (map2 (\<lambda>s i. if s = 1 then 0 else i) ps idx))\<rparr>)
      else Inl ShapeError)"
proof -
  let ?a = "(unsqueeze 0 ^^ l) src"
  let ?m = "rank other - (l + rank src)"
  let ?b = "(unsqueeze (- 1) ^^ ?m) ?a"
  have sa: "shape ?a = replicate l 1 @ shape src" by (rule unsqueeze_front_shape)
  have ra: "rank ?a = l + rank src" by (simp add: rank_def sa)
  have sb: "shape ?b = ps"
    unfolding ps_def padded_shape_def l_def[symmetric] by (simp add: unsqueeze_back_shape sa)
  have lb: "length ps = l + rank src + ?m"
    unfolding ps_def padded_shape_def l_def[symmetric] by (simp add: rank_def)
  have bc: "broadcast src other axis = expand ?b (shape other)"
    by (simp add: broadcast_def Let_def l_def lead_axes_def bdim_def rank_unsqueeze_front)
  have fb: "?b\<lparr>shape := shape other, elem := f\<rparr> = src\<lparr>shape := shape other, elem := f\<rparr>" for f
    by (simp add: unsqueeze_overwrite)
  have rb: "rank ?b = length ps" by (subst rank_def) (simp only: sb)
  show ?thesis
  proof (cases "length (shape other) < rank ?b")
    case True
    then have "length ps \<noteq> length (shape other)" unfolding rb by simp
    then have "\<not> list_all2 (\<lambda>s z. s = z \<or> s = 1) ps (shape other)"
      by (auto dest: list_all2_lengthD)
    with True show ?thesis by (simp add: bc expand_def)
  next
    case False
    have "rank other \<le> length ps" unfolding lb by simp
    then have k: "length (shape other) - rank ?b = 0" unfolding rb by (simp add: rank_def)
    show ?thesis unfolding bc expand_def if_not_P[OF False] k Let_def drop_0 sb fb ..
  qed
qed

lemma broadcast_general_elem:
  fixes src :: "'a tensor" and other :: "'b tensor" and axis :: int
  assumes ok: "list_all2 (\<lambda>s z. s = z \<or> s = 1) (padded_shape src other axis) (shape other)"
  shows "\<exists>r. broadcast src other axis = Inr r \<and> shape r = shape other
           \<and> is_floating_point r = is_floating_point src
           \<and> (\<forall>idx. length idx = rank other \<longrightarrow>
                 elem r idx = elem src (take (rank src) (drop (lead_axes src other axis)
                    (map2 (\<lambda>s i. if s = 1 then 0 else i) (padded_shape src other axis) idx))))"
proof -
  let ?l = "lead_axes src other axis" and ?ps = "padded_shape src other axis"
  let ?a = "(unsqueeze 0 ^^ ?l) src"
  let ?m = "rank other - (?l + rank src)"
  let ?b = "(unsqueeze (- 1) ^^ ?m) ?a"
  let ?r = "src\<lparr>shape := shape other,
                elem := (\<lambda>idx. elem ?b (map2 (\<lambda>s i. if s = 1 then 0 else i) ?ps idx))\<rparr>"
  have bc: "broadcast src other axis = Inr ?r"
    using ok by (simp add: broadcast_general)
  have lp: "length ?ps = rank other" using ok by (auto simp: rank_def dest: list_all2_lengthD)
  have lb: "length ?ps = ?l + rank src + ?m" by (simp add: padded_shape_def rank_def)
  have el: "elem ?r idx = elem src (take (rank src) (drop ?l
                    (map2 (\<lambda>s i. if s = 1 then 0 else i) ?ps idx)))"
    if li: "length idx = rank other" for idx
  proof -
    let ?xs = "map2 (\<lambda>s i. if s = 1 then 0 else i) ?ps idx"
    have lx: "length ?xs = rank ?a + ?m" using li lp lb by (simp add: rank_unsqueeze_front)
    have "elem ?r idx = elem ?b ?xs" by simp
    also have "\<dots> = elem ?a (take (rank ?a) ?xs)" by (rule unsqueeze_back_elem[OF lx])
    also have "\<dots> = elem src (drop ?l (take (?l + rank src) ?xs))"
      by (simp add: unsqueeze_front_elem rank_unsqueeze_front)
    also have "drop ?l (take (?l + rank src) ?xs) = take (rank src) (drop ?l ?xs)"
      by (simp add: drop_take)
    finally show ?thesis .
  qed
  have "shape ?r = shape other" "is_floating_point ?r = is_floating_point src" by simp_all
  with bc el show ?thesis by blast
qed

lemma broadcast_general_fail:
  "\<not> list_all2 (\<lambda>s z. s = z \<or> s = 1) (padded_shape src other axis) (shape other)
   \<Longrightarrow> broadcast src other axis = Inl ShapeError"
  by (simp add: broadcast_general)

text \<open>
  C4. \<^verbatim>\<open>broadcast(src, other, dim)\<close> for every \<open>src\<close>, \<open>other\<close> and \<open>dim\<close>, a negative
  \<open>dim\<close> resolved against the rank of \<open>other\<close>. The two loops give \<open>src\<close> the padded
  shape: \<open>dim\<close> singleton axes in front when \<open>src\<close> is 1-D, singleton axes behind
  until the ranks match. The call returns exactly when the padded shape has the
  rank of \<open>other\<close> and each of its extents is 1 or the extent of \<open>other\<close> on that
  axis; the result then has the shape of \<open>other\<close> and the dtype of \<open>src\<close>, and its
  element at a position is the element of \<open>src\<close> at that position without the
  inserted axes and with 0 on every axis of extent 1: a view of \<open>src\<close>, nothing is
  copied. In every other case the call fails with the shape error of \<^verbatim>\<open>expand\<close>.
  For a 1-D \<open>src\<close> of extent \<open>n\<close> and a resolved \<open>dim\<close> inside the rank of \<open>other\<close>
  this means: it returns exactly when \<open>n\<close> is 1 or the extent of \<open>other\<close> at \<open>dim\<close>.
  A \<open>src\<close> of another rank fails when its extent at \<open>dim\<close> is neither 1 nor the
  extent of \<open>other\<close> at \<open>dim\<close>.
\<close>

theorem broadcast_correct:
  "(if list_all2 (\<lambda>s z. s = z \<or> s = 1) (padded_shape src other axis) (shape other)
    then \<exists>r. broadcast src other axis = Inr r \<and> shape r = shape other
           \<and> is_floating_point r = is_floating_point src
           \<and> (\<forall>idx. length idx = rank other \<longrightarrow>
                 elem r idx = elem src (take (rank src) (drop (lead_axes src other axis)
                    (map2 (\<lambda>s i. if s = 1 then 0 else i) (padded_shape src other axis) idx))))
    else broadcast src other axis = Inl ShapeError)
   \<and> (shape src = [n] \<and> 0 \<le> bdim other axis \<and> bdim other axis < int (rank other) \<longrightarrow>
        (if n = 1 \<or> n = shape other ! nat (bdim other axis)
         then \<exists>r. broadcast src other axis = Inr r \<and> shape r = shape other
                \<and> (\<forall>idx. valid_idx (shape other) idx \<longrightarrow>
                      elem r idx = elem src [if n = 1 then 0 else idx ! nat (bdim other axis)])
         else broadcast src other axis = Inl ShapeError))
   \<and> (rank src \<noteq> 1 \<and> nat (bdim other axis) < rank src
        \<and> shape src ! nat (bdim other axis) \<noteq> 1
        \<and> shape src ! nat (bdim other axis) \<noteq> shape other ! nat (bdim other axis) \<longrightarrow>
        broadcast src other axis = Inl ShapeError)"
proof (intro conjI impI)
  show "if list_all2 (\<lambda>s z. s = z \<or> s = 1) (padded_shape src other axis) (shape other)
    then \<exists>r. broadcast src other axis = Inr r \<and> shape r = shape other
           \<and> is_floating_point r = is_floating_point src
           \<and> (\<forall>idx. length idx = rank other \<longrightarrow>
                 elem r idx = elem src (take (rank src) (drop (lead_axes src other axis)
                    (map2 (\<lambda>s i. if s = 1 then 0 else i) (padded_shape src other axis) idx))))
    else broadcast src other axis = Inl ShapeError"
  proof (cases "list_all2 (\<lambda>s z. s = z \<or> s = 1) (padded_shape src other axis) (shape other)")
    case True
    show ?thesis unfolding if_P[OF True] by (rule broadcast_general_elem[OF True])
  next
    case False
    show ?thesis unfolding if_not_P[OF False] by (rule broadcast_general_fail[OF False])
  qed
next
  assume a: "shape src = [n] \<and> 0 \<le> bdim other axis \<and> bdim other axis < int (rank other)"
  then have s: "shape src = [n]" and d0: "0 \<le> bdim other axis"
    and d1: "bdim other axis < int (rank other)" by simp_all
  have vl: "length idx = rank other" if "valid_idx (shape other) idx" for idx
    using that by (auto simp: valid_idx_def rank_def dest: list_all2_lengthD)
  show "if n = 1 \<or> n = shape other ! nat (bdim other axis)
         then \<exists>r. broadcast src other axis = Inr r \<and> shape r = shape other
                \<and> (\<forall>idx. valid_idx (shape other) idx \<longrightarrow>
                      elem r idx = elem src [if n = 1 then 0 else idx ! nat (bdim other axis)])
         else broadcast src other axis = Inl ShapeError"
    using broadcast_1d[OF s d0 d1] vl by (auto split: if_splits)
next
  assume "rank src \<noteq> 1 \<and> nat (bdim other axis) < rank src
        \<and> shape src ! nat (bdim other axis) \<noteq> 1
        \<and> shape src ! nat (bdim other axis) \<noteq> shape other ! nat (bdim other axis)"
  then show "broadcast src other axis = Inl ShapeError"
    using broadcast_mismatch[of src "nat (bdim other axis)" other axis] by simp
qed

text \<open>
  Equal extents at \<open>dim\<close> do not make the call return: a \<open>(2, 3)\<close> tensor against
  a \<open>(2, 4)\<close> one, \<open>dim = 0\<close>, fails on the other axis.
\<close>

theorem broadcast_correct_counterexample:
  "shape (tensor2 [[1, 2, 3], [4, 5, 6::int]] False) ! 0
     = shape (tensor2 [[1, 2, 3, 4], [5, 6, 7, 8::int]] False) ! 0
   \<and> broadcast (tensor2 [[1, 2, 3], [4, 5, 6::int]] False)
        (tensor2 [[1, 2, 3, 4], [5, 6, 7, 8::int]] False) 0 = Inl ShapeError"
  by (simp add: broadcast_def expand_def rank_def tensor2_def Let_def)

theorem broadcast_correct_witness:
  "(\<exists>r. broadcast (tensor2 [[1, 2, 3], [4, 5, 6::int]] False) (ones [2, 3, 4] False :: int tensor) 0
          = Inr r \<and> shape r = [2, 3, 4] \<and> elem r [1, 2, 3] = 6)
   \<and> (\<exists>r. broadcast (tensor1 [7, 8, 9::int] False) (tensor2 [[1,2],[3,4],[5,6::int]] False) (- 2) = Inr r
       \<and> shape r = [3, 2] \<and> elem r [2, 1] = 9)
   \<and> broadcast (tensor1 [7, 8::int] False) (tensor2 [[1,2],[3,4],[5,6::int]] False) 0
       = Inl ShapeError
   \<and> broadcast (tensor2 [[7, 8], [8, 9::int]] False) (tensor2 [[1,2],[3,4],[5,6::int]] False) 0
       = Inl ShapeError"
proof -
  let ?o = "tensor2 [[1,2],[3,4],[5,6::int]] False"
  let ?a = "tensor1 [7, 8, 9::int] False"
  let ?b = "tensor1 [7, 8::int] False"
  let ?c = "tensor2 [[7, 8], [8, 9::int]] False"
  let ?s = "tensor2 [[1, 2, 3], [4, 5, 6::int]] False"
  let ?t = "ones [2, 3, 4] False :: int tensor"
  have bd: "bdim ?o (- 2) = 0" "bdim ?o 0 = 0" by (simp_all add: bdim_def rank_def tensor2_def)
  have ro: "rank ?o = 2" "rank ?c = 2" by (simp_all add: rank_def tensor2_def)
  have so: "shape ?o ! 0 = 3" "shape ?c ! 0 = 2" by (simp_all add: tensor2_def)
  have sa: "shape ?a = [3]" "shape ?b = [2]" by (simp_all add: tensor1_def)
  have 0: "\<exists>r. broadcast ?s ?t 0 = Inr r \<and> shape r = [2, 3, 4] \<and> elem r [1, 2, 3] = 6"
  proof -
    have l: "lead_axes ?s ?t 0 = 0" by (simp add: lead_axes_def rank_def tensor2_def)
    have p: "padded_shape ?s ?t 0 = [2, 3, 1]"
      by (simp add: padded_shape_def l) (simp add: rank_def tensor2_def ones_def)
    have c: "list_all2 (\<lambda>s z. s = z \<or> s = 1) (padded_shape ?s ?t 0) (shape ?t)"
      unfolding p by (simp add: ones_def)
    from broadcast_correct[of ?s ?t 0 0, THEN conjunct1]
    have "\<exists>r. broadcast ?s ?t 0 = Inr r \<and> shape r = shape ?t
           \<and> is_floating_point r = is_floating_point ?s
           \<and> (\<forall>idx. length idx = rank ?t \<longrightarrow>
                 elem r idx = elem ?s (take (rank ?s) (drop (lead_axes ?s ?t 0)
                    (map2 (\<lambda>s i. if s = 1 then 0 else i) (padded_shape ?s ?t 0) idx))))"
      unfolding if_P[OF c] .
    then obtain r where r: "broadcast ?s ?t 0 = Inr r" and sr: "shape r = shape ?t"
      and e: "\<forall>idx. length idx = rank ?t \<longrightarrow>
                 elem r idx = elem ?s (take (rank ?s) (drop (lead_axes ?s ?t 0)
                    (map2 (\<lambda>s i. if s = 1 then 0 else i) (padded_shape ?s ?t 0) idx)))"
      by blast
    have "shape r = [2, 3, 4]" using sr by (simp add: ones_def)
    moreover have "length [1, 2, 3::nat] = rank ?t" by (simp add: rank_def ones_def)
    from e[rule_format, OF this] have "elem r [1, 2, 3] = 6"
      unfolding p l by (simp add: rank_def tensor2_def)
    ultimately show ?thesis using r by blast
  qed
  have 1: "\<exists>r. broadcast ?a ?o (- 2) = Inr r \<and> shape r = [3, 2] \<and> elem r [2, 1] = 9"
  proof -
    have h: "shape ?a = [3] \<and> 0 \<le> bdim ?o (- 2) \<and> bdim ?o (- 2) < int (rank ?o)"
      by (simp add: bd ro sa)
    have c: "(3::nat) = 1 \<or> 3 = shape ?o ! nat (bdim ?o (- 2))" by (simp add: bd so)
    from broadcast_correct[of ?a ?o "- 2" 3, THEN conjunct2, THEN conjunct1, THEN mp, OF h]
    have "\<exists>r. broadcast ?a ?o (- 2) = Inr r \<and> shape r = shape ?o
                \<and> (\<forall>idx. valid_idx (shape ?o) idx \<longrightarrow>
                      elem r idx = elem ?a [if (3::nat) = 1 then 0 else idx ! nat (bdim ?o (- 2))])"
      unfolding if_P[OF c] .
    then obtain r where
      r: "broadcast ?a ?o (- 2) = Inr r" and sr: "shape r = shape ?o" and
      e: "\<forall>idx. valid_idx (shape ?o) idx \<longrightarrow>
             elem r idx = elem ?a [if (3::nat) = 1 then 0 else idx ! nat (bdim ?o (- 2))]"
      by blast
    have "shape r = [3, 2]" using sr by (simp add: tensor2_def)
    moreover have "elem r [2, 1] = 9"
      using e[rule_format, of "[2, 1]"] unfolding bd
      by (simp add: valid_idx_def tensor2_def tensor1_def)
    ultimately show ?thesis using r by blast
  qed
  have 2: "broadcast ?b ?o 0 = Inl ShapeError"
  proof -
    have h: "shape ?b = [2] \<and> 0 \<le> bdim ?o 0 \<and> bdim ?o 0 < int (rank ?o)"
      by (simp add: bd ro sa)
    have c: "\<not> ((2::nat) = 1 \<or> 2 = shape ?o ! nat (bdim ?o 0))" by (simp add: bd so)
    from broadcast_correct[of ?b ?o 0 2, THEN conjunct2, THEN conjunct1, THEN mp, OF h]
    show ?thesis unfolding if_not_P[OF c] .
  qed
  have 3: "broadcast ?c ?o 0 = Inl ShapeError"
  proof -
    have h: "rank ?c \<noteq> 1 \<and> nat (bdim ?o 0) < rank ?c
        \<and> shape ?c ! nat (bdim ?o 0) \<noteq> 1
        \<and> shape ?c ! nat (bdim ?o 0) \<noteq> shape ?o ! nat (bdim ?o 0)"
      by (simp add: bd ro so)
    from broadcast_correct[of ?c ?o 0 0, THEN conjunct2, THEN conjunct2, THEN mp, OF h]
    show ?thesis .
  qed
  from 0 1 2 3 show ?thesis by blast
qed

section \<open>The sum reduction\<close>

lemma sum_list_filter_distinct:
  fixes f :: "'b \<Rightarrow> 'a::comm_monoid_add"
  assumes "distinct xs"
  shows "sum_list (map f (filter P xs)) = sum f {x \<in> set xs. P x}"
proof -
  have "sum_list (map f (filter P xs)) = sum f (set (filter P xs))"
    using assms by (simp add: sum_list_distinct_conv_sum_set)
  then show ?thesis by simp
qed

lemma valid_update:
  assumes "list_all2 (<) p (s[d := m])" "i < s ! d" "d < length s"
  shows "list_all2 (<) (p[d := i]) s"
  using assms unfolding list_all2_conv_all_nth
  by (auto simp: nth_list_update split: if_splits)

lemma scatter_sum_point:
  fixes f :: "nat list \<Rightarrow> 'a::comm_monoid_add"
  assumes d: "d < length s" and p: "list_all2 (<) p (s[d := m])"
  shows "sum_list (map f (filter (\<lambda>idx. idx[d := g idx] = p) (indices s)))
         = (\<Sum>i | i < s ! d \<and> g (p[d := i]) = p ! d. f (p[d := i]))"
proof -
  have lp: "length p = length s" using p by (auto dest: list_all2_lengthD)
  have "sum_list (map f (filter (\<lambda>idx. idx[d := g idx] = p) (indices s)))
        = sum f {idx \<in> set (indices s). idx[d := g idx] = p}"
    by (rule sum_list_filter_distinct) (rule distinct_indices)
  also have "\<dots> = (\<Sum>i | i < s ! d \<and> g (p[d := i]) = p ! d. f (p[d := i]))"
  proof (rule sum.reindex_bij_witness[where i = "\<lambda>i. p[d := i]" and j = "\<lambda>idx. idx ! d"])
    fix idx assume a: "idx \<in> {idx \<in> set (indices s). idx[d := g idx] = p}"
    then have v: "list_all2 (<) idx s" and e: "idx[d := g idx] = p" by (auto simp: set_indices)
    have li: "length idx = length s" using v by (auto dest: list_all2_lengthD)
    have "p[d := idx ! d] = idx[d := idx ! d]" using e[symmetric] by simp
    then show 1: "p[d := idx ! d] = idx" by simp
    have "idx ! d < s ! d" using v d by (simp add: list_all2_conv_all_nth)
    moreover have "p ! d = g idx" using e[symmetric] d li by simp
    ultimately show "idx ! d \<in> {i. i < s ! d \<and> g (p[d := i]) = p ! d}" using 1 by simp
    show "f (p[d := idx ! d]) = f idx" using 1 by simp
  next
    fix i assume a: "i \<in> {i. i < s ! d \<and> g (p[d := i]) = p ! d}"
    then have i: "i < s ! d" and e: "g (p[d := i]) = p ! d" by auto
    show "p[d := i] ! d = i" using d lp by simp
    have "list_all2 (<) (p[d := i]) s" by (rule valid_update[OF p i d])
    moreover have "(p[d := i])[d := g (p[d := i])] = p" using e by simp
    ultimately show "p[d := i] \<in> {idx \<in> set (indices s). idx[d := g idx] = p}"
      by (simp add: set_indices)
  qed
  finally show ?thesis .
qed

lemma resolve_dim_Inr:
  "resolve_dim n axis = Inr d \<Longrightarrow> (if axis < 0 then int n + axis else axis) = int d \<and> d < n"
  by (auto simp: resolve_dim_def Let_def split: if_splits)

lemma indices_empty: "prod_list s = 0 \<Longrightarrow> indices s = []"
  using length_indices[of s] by simp

lemma valid_nth:
  "list_all2 (<) q s \<Longrightarrow> d < length s \<Longrightarrow> q ! d < s ! d \<and> length q = length s"
  by (simp add: list_all2_conv_all_nth)

lemma broadcast_index_1d:
  assumes rd: "resolve_dim (rank src) axis = Inr d"
      and sh: "shape index = [shape src ! d]"
  shows "\<exists>ix. broadcast index src axis = Inr ix \<and> shape ix = shape src
            \<and> (\<forall>q. list_all2 (<) q (shape src) \<longrightarrow> elem ix q = elem index [q ! d])"
proof -
  from resolve_dim_Inr[OF rd] have b: "bdim src axis = int d" and dl: "d < rank src"
    by (simp_all add: bdim_def)
  have b0: "0 \<le> bdim src axis" and b1: "bdim src axis < int (rank src)"
    using b dl by simp_all
  from broadcast_1d[OF sh b0 b1] b
  obtain ix where ix: "broadcast index src axis = Inr ix" "shape ix = shape src"
     and el: "\<forall>idx. length idx = rank src \<longrightarrow>
                elem ix idx = elem index [if shape src ! d = 1 then 0 else idx ! d]"
    by auto
  have "elem ix q = elem index [q ! d]" if v: "list_all2 (<) q (shape src)" for q
  proof -
    from valid_nth[OF v] dl have qd: "q ! d < shape src ! d" and lq: "length q = rank src"
      by (simp_all add: rank_def)
    from el lq have "elem ix q = elem index [if shape src ! d = 1 then 0 else q ! d]" by blast
    moreover have "(if shape src ! d = 1 then 0 else q ! d) = q ! d" using qd by auto
    ultimately show ?thesis by simp
  qed
  with ix show ?thesis by blast
qed

lemma broadcast_shape: "broadcast a b axis = Inr r \<Longrightarrow> shape r = shape b"
  by (auto simp: broadcast_def expand_def Let_def split: if_splits)

lemma scatter_add_nd_shape:
  "scatter_add_nd self axis ix src = Inr r \<Longrightarrow> shape r = shape self"
  by (auto simp: scatter_add_nd_def split: sum.splits if_splits)

lemma scatter_add_inplace_shape:
  "scatter_add_inplace self axis ix src = Inr r \<Longrightarrow> shape r = shape self"
  by (auto simp: scatter_add_inplace_def as_1d_def dest!: scatter_add_nd_shape
           split: sum.splits if_splits)

lemma as_1d_id: "shape t \<noteq> [] \<Longrightarrow> as_1d t = t"
  by (simp add: as_1d_def)

lemma all2_le_update: "d < length s \<Longrightarrow> list_all2 (\<le>) (s[d := 0]) (s[d := (m::nat)])"
  by (auto simp: list_all2_conv_all_nth nth_list_update)

lemma scatter_add_inplace_fresh:
  fixes src :: "('a::{plus,zero}) tensor" and m :: nat
  assumes rd: "resolve_dim (length s) axis = Inr d" and si: "shape ix = s" and ss: "shape src = s"
  defines "out0 \<equiv> \<lparr>shape = s[d := m], elem = (\<lambda>_. 0::'a),
                      is_floating_point = is_floating_point src\<rparr>"
  shows "scatter_add_inplace out0 axis ix src =
     (if prod_list s = 0 then Inr out0
      else if list_ex (\<lambda>q. elem ix q < 0 \<or> int m \<le> elem ix q) (indices s) then Inl IndexError
      else Inr (out0\<lparr>elem := fold (scatter_step d ix src) (indices s) (elem out0)\<rparr>))"
proof -
  from resolve_dim_Inr[OF rd] have dl: "d < length s" by simp
  then have ne: "s \<noteq> []" by auto
  have r0: "rank out0 = length s" by (simp add: rank_def out0_def)
  have md: "shape out0 ! d = m" using dl by (simp add: out0_def)
  have a: "list_all2 (\<le>) (shape ix) (shape src)" by (simp add: si ss list_all2_same)
  have b: "list_all2 (\<le>) ((shape ix)[d := 0]) (shape out0)"
    using all2_le_update[OF dl, of m] by (simp add: si out0_def)
  have f: "is_floating_point src = is_floating_point out0" by (simp add: out0_def)
  have so: "shape out0 \<noteq> []" using ne by (simp add: out0_def)
  have nd: "scatter_add_nd out0 axis ix src =
     (if prod_list s = 0 then Inr out0
      else if list_ex (\<lambda>q. elem ix q < 0 \<or> int m \<le> elem ix q) (indices s) then Inl IndexError
      else Inr (out0\<lparr>elem := fold (scatter_step d ix src) (indices s) (elem out0)\<rparr>))"
    unfolding scatter_add_nd_def r0 rd
    using a b f by (simp add: numel_def rank_def si ss md)
  have "scatter_add_inplace out0 axis ix src =
        (case scatter_add_nd out0 axis ix src of Inl e \<Rightarrow> Inl e | Inr r \<Rightarrow> Inr r)"
    using ne so by (simp add: scatter_add_inplace_def as_1d_id si ss split: sum.splits)
  then show ?thesis unfolding nd by (simp split: if_splits)
qed

lemma zeros_update:
  assumes "0 \<le> k"
  shows "zeros ((map int s)[d := k]) fl
         = Inr \<lparr>shape = s[d := nat k], elem = (\<lambda>_. 0), is_floating_point = fl\<rparr>"
proof -
  have "\<not> list_ex (\<lambda>n. n < 0) ((map int s)[d := k])"
    using assms by (auto simp: list_ex_iff dest!: set_update_subset_insert[THEN subsetD])
  moreover have "map nat ((map int s)[d := k]) = s[d := nat k]"
    by (simp add: map_update comp_def)
  ultimately show ?thesis by (simp add: zeros_def)
qed

lemma scatter_sum_fresh:
  fixes src :: "('a::{plus,zero}) tensor"
  assumes rd: "resolve_dim (rank src) axis = Inr d"
      and bc: "broadcast index src axis = Inr ix"
      and k0: "0 \<le> k"
  shows "scatter_sum src index axis None (Some k) =
     (if numel src = 0
      then Inr \<lparr>shape = (shape src)[d := nat k], elem = (\<lambda>_. 0),
                is_floating_point = is_floating_point src\<rparr>
      else if list_ex (\<lambda>q. elem ix q < 0 \<or> int (nat k) \<le> elem ix q) (indices (shape src))
      then Inl IndexError
      else Inr \<lparr>shape = (shape src)[d := nat k],
                elem = fold (scatter_step d ix src) (indices (shape src)) (\<lambda>_. 0),
                is_floating_point = is_floating_point src\<rparr>)"
proof -
  have si: "shape ix = shape src" by (rule broadcast_shape[OF bc])
  have rd': "resolve_dim (length (shape src)) axis = Inr d" using rd by (simp add: rank_def)
  have "scatter_sum src index axis None (Some k) =
        scatter_add_inplace \<lparr>shape = (shape src)[d := nat k], elem = (\<lambda>_. 0),
                is_floating_point = is_floating_point src\<rparr> axis ix src"
    by (simp add: scatter_sum_def bc rd zeros_update[OF k0])
  also note scatter_add_inplace_fresh[OF rd' si refl]
  finally show ?thesis by (simp add: numel_def)
qed

lemma scatter_sum_fresh_fold:
  fixes src :: "('a::{plus,zero}) tensor"
  assumes rd: "resolve_dim (rank src) axis = Inr d"
      and bc: "broadcast index src axis = Inr ix"
      and k0: "0 \<le> k"
      and ok: "\<forall>q \<in> set (indices (shape src)). 0 \<le> elem ix q \<and> elem ix q < k"
  shows "scatter_sum src index axis None (Some k) =
      Inr \<lparr>shape = (shape src)[d := nat k],
           elem = fold (scatter_step d ix src) (indices (shape src)) (\<lambda>_. 0),
           is_floating_point = is_floating_point src\<rparr>"
proof -
  have nb: "\<not> list_ex (\<lambda>q. elem ix q < 0 \<or> int (nat k) \<le> elem ix q) (indices (shape src))"
    using ok k0 by (auto simp: list_ex_iff)
  show ?thesis
  proof (cases "numel src = 0")
    case True
    then have "indices (shape src) = []" by (simp add: numel_def indices_empty)
    with True show ?thesis by (simp add: scatter_sum_fresh[OF rd bc k0])
  next
    case False
    with nb show ?thesis by (simp add: scatter_sum_fresh[OF rd bc k0])
  qed
qed

lemma indices_nonempty: "q \<in> set (indices s) \<Longrightarrow> prod_list s \<noteq> 0"
  using length_indices[of s] by (cases "indices s") auto

lemma scatter_sum_1d:
  fixes src :: "('a::comm_monoid_add) tensor"
  assumes rd: "resolve_dim (rank src) axis = Inr d"
      and sh: "shape index = [shape src ! d]"
      and k0: "0 \<le> dim_size"
      and rng: "numel src \<noteq> 0 \<longrightarrow>
                  (\<forall>i < shape src ! d. 0 \<le> elem index [i] \<and> elem index [i] < dim_size)"
  shows "\<exists>out. scatter_sum src index axis None (Some dim_size) = Inr out
           \<and> shape out = (shape src)[d := nat dim_size]
           \<and> is_floating_point out = is_floating_point src
           \<and> (\<forall>p. valid_idx (shape out) p \<longrightarrow>
                 elem out p = (\<Sum>i | i < shape src ! d \<and> elem index [i] = int (p ! d).
                                  elem src (p[d := i]))
               \<and> ((\<forall>i < shape src ! d. elem index [i] \<noteq> int (p ! d)) \<longrightarrow> elem out p = 0))"
proof -
  let ?s = "shape src"
  from resolve_dim_Inr[OF rd] have dl: "d < length ?s" by (simp add: rank_def)
  from broadcast_index_1d[OF rd sh] obtain ix where
    bc: "broadcast index src axis = Inr ix" and
    el: "\<And>q. list_all2 (<) q ?s \<Longrightarrow> elem ix q = elem index [q ! d]"
    by blast
  have ok: "\<forall>q \<in> set (indices ?s). 0 \<le> elem ix q \<and> elem ix q < dim_size"
  proof
    fix q assume q: "q \<in> set (indices ?s)"
    then have v: "list_all2 (<) q ?s" by (simp add: set_indices)
    from q have "numel src \<noteq> 0" by (simp add: numel_def indices_nonempty)
    moreover from valid_nth[OF v dl] have "q ! d < ?s ! d" by simp
    ultimately show "0 \<le> elem ix q \<and> elem ix q < dim_size"
      using rng el[OF v] by simp
  qed
  let ?out = "\<lparr>shape = ?s[d := nat dim_size],
               elem = fold (scatter_step d ix src) (indices ?s) (\<lambda>_. 0),
               is_floating_point = is_floating_point src\<rparr>"
  have res: "scatter_sum src index axis None (Some dim_size) = Inr ?out"
    by (rule scatter_sum_fresh_fold[OF rd bc k0 ok])
  have val: "elem ?out p = (\<Sum>i | i < ?s ! d \<and> elem index [i] = int (p ! d). elem src (p[d := i]))"
    if vp: "valid_idx (shape ?out) p" for p
  proof -
    from vp have p: "list_all2 (<) p (?s[d := nat dim_size])" by (simp add: valid_idx_def)
    have lp: "length p = length ?s" using p by (auto dest: list_all2_lengthD)
    have "elem ?out p
          = sum_list (map (elem src) (filter (\<lambda>idx. idx[d := nat (elem ix idx)] = p) (indices ?s)))"
      by (simp add: fold_scatter_step)
    also have "\<dots> = (\<Sum>i | i < ?s ! d \<and> nat (elem ix (p[d := i])) = p ! d. elem src (p[d := i]))"
      by (rule scatter_sum_point[OF dl p])
    also have "{i. i < ?s ! d \<and> nat (elem ix (p[d := i])) = p ! d}
               = {i. i < ?s ! d \<and> elem index [i] = int (p ! d)}"
    proof (rule Collect_cong, rule conj_cong, rule refl)
      fix i assume i: "i < ?s ! d"
      have vi: "list_all2 (<) (p[d := i]) ?s" by (rule valid_update[OF p i dl])
      then have "p[d := i] \<in> set (indices ?s)" by (simp add: set_indices)
      then have ne: "numel src \<noteq> 0" by (simp add: numel_def indices_nonempty)
      from el[OF vi] have "elem ix (p[d := i]) = elem index [i]" using dl lp by simp
      moreover have "0 \<le> elem index [i]" using rng i ne by simp
      ultimately show "(nat (elem ix (p[d := i])) = p ! d) = (elem index [i] = int (p ! d))"
        by auto
    qed
    finally show ?thesis .
  qed
  have zero: "elem ?out p = 0"
    if vp: "valid_idx (shape ?out) p" and no: "\<forall>i < ?s ! d. elem index [i] \<noteq> int (p ! d)" for p
  proof -
    have "{i. i < ?s ! d \<and> elem index [i] = int (p ! d)} = {}" using no by auto
    with val[OF vp] show ?thesis by simp
  qed
  show ?thesis
    using res val zero by (intro exI[of _ ?out]) simp
qed

lemma scatter_sum_bc:
  fixes src :: "('a::comm_monoid_add) tensor"
  assumes rd: "resolve_dim (rank src) axis = Inr d"
      and bc: "broadcast index src axis = Inr ix"
      and k0: "0 \<le> dim_size"
      and rng: "\<forall>q. valid_idx (shape src) q \<longrightarrow> 0 \<le> elem ix q \<and> elem ix q < dim_size"
  shows "\<exists>out. scatter_sum src index axis None (Some dim_size) = Inr out
           \<and> shape out = (shape src)[d := nat dim_size]
           \<and> is_floating_point out = is_floating_point src
           \<and> (\<forall>p. valid_idx (shape out) p \<longrightarrow>
                 elem out p = (\<Sum>i | i < shape src ! d \<and> elem ix (p[d := i]) = int (p ! d).
                                  elem src (p[d := i]))
               \<and> ((\<forall>i < shape src ! d. elem ix (p[d := i]) \<noteq> int (p ! d)) \<longrightarrow> elem out p = 0))"
proof -
  let ?s = "shape src"
  from resolve_dim_Inr[OF rd] have dl: "d < length ?s" by (simp add: rank_def)
  have ok: "\<forall>q \<in> set (indices ?s). 0 \<le> elem ix q \<and> elem ix q < dim_size"
    using rng by (simp add: set_indices valid_idx_def)
  let ?out = "\<lparr>shape = ?s[d := nat dim_size],
               elem = fold (scatter_step d ix src) (indices ?s) (\<lambda>_. 0),
               is_floating_point = is_floating_point src\<rparr>"
  have res: "scatter_sum src index axis None (Some dim_size) = Inr ?out"
    by (rule scatter_sum_fresh_fold[OF rd bc k0 ok])
  have val: "elem ?out p = (\<Sum>i | i < ?s ! d \<and> elem ix (p[d := i]) = int (p ! d). elem src (p[d := i]))"
    if vp: "valid_idx (shape ?out) p" for p
  proof -
    from vp have p: "list_all2 (<) p (?s[d := nat dim_size])" by (simp add: valid_idx_def)
    have "elem ?out p
          = sum_list (map (elem src) (filter (\<lambda>idx. idx[d := nat (elem ix idx)] = p) (indices ?s)))"
      by (simp add: fold_scatter_step)
    also have "\<dots> = (\<Sum>i | i < ?s ! d \<and> nat (elem ix (p[d := i])) = p ! d. elem src (p[d := i]))"
      by (rule scatter_sum_point[OF dl p])
    also have "{i. i < ?s ! d \<and> nat (elem ix (p[d := i])) = p ! d}
               = {i. i < ?s ! d \<and> elem ix (p[d := i]) = int (p ! d)}"
    proof (rule Collect_cong, rule conj_cong, rule refl)
      fix i assume i: "i < ?s ! d"
      have vi: "list_all2 (<) (p[d := i]) ?s" by (rule valid_update[OF p i dl])
      then have "0 \<le> elem ix (p[d := i])" using rng by (simp add: valid_idx_def)
      then show "(nat (elem ix (p[d := i])) = p ! d) = (elem ix (p[d := i]) = int (p ! d))"
        by auto
    qed
    finally show ?thesis .
  qed
  have zero: "elem ?out p = 0"
    if vp: "valid_idx (shape ?out) p" and no: "\<forall>i < ?s ! d. elem ix (p[d := i]) \<noteq> int (p ! d)" for p
  proof -
    have "{i. i < ?s ! d \<and> elem ix (p[d := i]) = int (p ! d)} = {}" using no by auto
    with val[OF vp] show ?thesis by simp
  qed
  show ?thesis
    using res val zero by (intro exI[of _ ?out]) simp
qed

text \<open>
  C1. Take any value tensor \<open>src\<close>, an axis that resolves to \<open>d\<close>, any index tensor
  that \<^verbatim>\<open>broadcast\<close> accepts against \<open>src\<close> (one id per row, one id per element, or
  any shape in between), and an explicit \<open>dim_size\<close> that all group ids are below.
  The broadcast index \<open>ix\<close> gives every element of \<open>src\<close> its group id. Then
  \<^verbatim>\<open>scatter_sum\<close> with \<open>out\<close> omitted returns a tensor, and its element at every
  position \<open>p\<close> is the sum of the elements of \<open>src\<close> at \<open>p\<close> with the \<open>d\<close> component
  replaced by \<open>i\<close>, over the rows \<open>i\<close> whose group id there is the \<open>d\<close> component of
  \<open>p\<close>: the slice of group \<open>g\<close> is the elementwise sum of the rows of group \<open>g\<close>.
  A group with no row has a slice of zeros. For an index with one entry per row, the
  group id of an element is the entry of its row. Elements are in any commutative
  monoid, so the statement covers integer tensors exactly (also with wrap-around)
  and floating-point tensors up to rounding.
\<close>

theorem scatter_sum_correct:
  fixes src :: "('a::comm_monoid_add) tensor"
  assumes "resolve_dim (rank src) axis = Inr d"
      and "broadcast index src axis = Inr ix"
      and "0 \<le> dim_size"
      and "\<forall>q. valid_idx (shape src) q \<longrightarrow> 0 \<le> elem ix q \<and> elem ix q < dim_size"
  shows "\<exists>out. scatter_sum src index axis None (Some dim_size) = Inr out
           \<and> shape out = (shape src)[d := nat dim_size]
           \<and> (\<forall>p. valid_idx (shape out) p \<longrightarrow>
                 elem out p = (\<Sum>i | i < shape src ! d \<and> elem ix (p[d := i]) = int (p ! d).
                                  elem src (p[d := i]))
               \<and> ((\<forall>i < shape src ! d. elem ix (p[d := i]) \<noteq> int (p ! d)) \<longrightarrow> elem out p = 0))
           \<and> (shape index = [shape src ! d] \<longrightarrow>
                 (\<forall>q. valid_idx (shape src) q \<longrightarrow> elem ix q = elem index [q ! d]))"
proof -
  from scatter_sum_bc[OF assms] obtain out where
    o: "scatter_sum src index axis None (Some dim_size) = Inr out"
       "shape out = (shape src)[d := nat dim_size]"
       "\<forall>p. valid_idx (shape out) p \<longrightarrow>
                 elem out p = (\<Sum>i | i < shape src ! d \<and> elem ix (p[d := i]) = int (p ! d).
                                  elem src (p[d := i]))
               \<and> ((\<forall>i < shape src ! d. elem ix (p[d := i]) \<noteq> int (p ! d)) \<longrightarrow> elem out p = 0)"
    by blast
  have "shape index = [shape src ! d] \<longrightarrow>
                 (\<forall>q. valid_idx (shape src) q \<longrightarrow> elem ix q = elem index [q ! d])"
    using broadcast_index_1d[OF assms(1), of index] assms(2) by (auto simp: valid_idx_def)
  with o show ?thesis by blast
qed

theorem scatter_sum_correct_witness:
  "(\<exists>out. scatter_sum (tensor2 [[1,2],[3,4],[5,6]] False :: int tensor) (tensor1 [0,1,0] False)
            0 None (Some 2) = Inr out
         \<and> shape out = [2, 2] \<and> elem out [0, 1] = 8 \<and> elem out [1, 0] = 3)
   \<and> (\<exists>out. scatter_sum (tensor2 [[1,2],[3,4],[5,6]] False :: int tensor)
            (tensor2 [[0],[1],[0]] False) 0 None (Some 2) = Inr out
         \<and> shape out = [2, 2] \<and> elem out [0, 1] = 8 \<and> elem out [1, 0] = 3)"
proof -
  let ?src = "tensor2 [[1,2],[3,4],[5,6]] False :: int tensor"
  let ?ix = "tensor1 [0,1,0] False :: int tensor"
  let ?jx = "tensor2 [[0],[1],[0]] False :: int tensor"
  have rd: "resolve_dim (rank ?src) 0 = Inr 0"
    by (simp add: resolve_dim_def rank_def tensor2_def)
  have ss: "shape ?src = [3, 2]" by (simp add: tensor2_def)
  have vq: "valid_idx (shape ?src) q \<Longrightarrow> \<exists>a b. q = [a, b] \<and> a < 3 \<and> b < 2" for q
    unfolding ss valid_idx_def list_all2_Cons2 by auto
  have sets: "{i. i < (3::nat) \<and> [0, 1, 0::int] ! i = 0} = {0, 2}"
             "{i. i < (3::nat) \<and> [0, 1, 0::int] ! i = 1} = {1}"
    by (auto simp: less_Suc_eq numeral_3_eq_3 numeral_2_eq_2)
  have A: "\<exists>out. scatter_sum ?src index 0 None (Some 2) = Inr out
         \<and> shape out = [2, 2] \<and> elem out [0, 1] = 8 \<and> elem out [1, 0] = 3"
    if bc: "broadcast index ?src 0 = Inr ix"
      and el: "\<And>a b. a < 3 \<Longrightarrow> b < 2 \<Longrightarrow> elem ix [a, b] = [0, 1, 0] ! a" for index ix
  proof -
    have rng: "\<forall>q. valid_idx (shape ?src) q \<longrightarrow> 0 \<le> elem ix q \<and> elem ix q < 2"
    proof (intro allI impI)
      fix q assume "valid_idx (shape ?src) q"
      from vq[OF this] obtain a b where q: "q = [a, b]" "a < 3" "b < 2" by blast
      have e: "elem ix q = [0, 1, 0] ! a" unfolding q(1) by (rule el[OF q(2) q(3)])
      from q(2) have "a = 0 \<or> a = 1 \<or> a = 2" by linarith
      then show "0 \<le> elem ix q \<and> elem ix q < 2" unfolding e by auto
    qed
    have k0: "(0::int) \<le> 2" by simp
    from scatter_sum_correct[OF rd bc k0 rng] obtain out where
      r: "scatter_sum ?src index 0 None (Some 2) = Inr out" and
      s: "shape out = (shape ?src)[0 := nat 2]" and
      v: "\<And>p. valid_idx (shape out) p \<Longrightarrow>
          elem out p = (\<Sum>i | i < shape ?src ! 0 \<and> elem ix (p[0 := i]) = int (p ! 0).
                          elem ?src (p[0 := i]))"
      by blast
    have s2: "shape out = [2, 2]" using s by (simp add: ss)
    have "{i. i < shape ?src ! 0 \<and> elem ix ([0, 1][0 := i]) = int ([0, 1::nat] ! 0)}
          = {i. i < (3::nat) \<and> [0, 1, 0::int] ! i = 0}"
      by (rule Collect_cong) (simp add: ss el cong: conj_cong)
    then have set1: "{i. i < shape ?src ! 0 \<and> elem ix ([0, 1][0 := i]) = int ([0, 1::nat] ! 0)} = {0, 2}"
      unfolding sets .
    have "{i. i < shape ?src ! 0 \<and> elem ix ([1, 0][0 := i]) = int ([1, 0::nat] ! 0)}
          = {i. i < (3::nat) \<and> [0, 1, 0::int] ! i = 1}"
      by (rule Collect_cong) (simp add: ss el cong: conj_cong)
    then have set2: "{i. i < shape ?src ! 0 \<and> elem ix ([1, 0][0 := i]) = int ([1, 0::nat] ! 0)} = {1}"
      unfolding sets .
    have "elem out [0, 1] = 8"
      using v[of "[0, 1]"] unfolding set1 by (simp add: s2 valid_idx_def tensor2_def)
    moreover have "elem out [1, 0] = 3"
      using v[of "[1, 0]"] unfolding set2 by (simp add: s2 valid_idx_def tensor2_def)
    ultimately show ?thesis using r s2 by blast
  qed
  have sh: "shape ?ix = [shape ?src ! 0]" by (simp add: tensor1_def tensor2_def)
  from broadcast_index_1d[OF rd sh] obtain ix where
    bc1: "broadcast ?ix ?src 0 = Inr ix" and
    e1: "\<And>q. list_all2 (<) q (shape ?src) \<Longrightarrow> elem ix q = elem ?ix [q ! 0]" by blast
  have el1: "elem ix [a, b] = [0, 1, 0] ! a" if "a < 3" "b < 2" for a b
    using e1[of "[a, b]"] that by (simp add: ss tensor1_def)
  have l: "lead_axes ?jx ?src 0 = 0" by (simp add: lead_axes_def rank_def tensor2_def)
  have p: "padded_shape ?jx ?src 0 = [3, 1]"
    by (simp add: padded_shape_def l) (simp add: rank_def tensor2_def)
  have c: "list_all2 (\<lambda>s z. s = z \<or> s = 1) (padded_shape ?jx ?src 0) (shape ?src)"
    unfolding p ss by simp
  from broadcast_general_elem[OF c] obtain jx where
    bc2: "broadcast ?jx ?src 0 = Inr jx" and
    e2: "\<And>idx. length idx = rank ?src \<Longrightarrow>
          elem jx idx = elem ?jx (take (rank ?jx) (drop (lead_axes ?jx ?src 0)
             (map2 (\<lambda>s i. if s = 1 then 0 else i) (padded_shape ?jx ?src 0) idx)))"
    by blast
  have el2: "elem jx [a, b] = [0, 1, 0] ! a" if "a < 3" "b < 2" for a b
  proof -
    have "elem jx [a, b] = elem ?jx [a, 0]"
      using e2[of "[a, b]"] unfolding p l by (simp add: rank_def tensor2_def)
    also have "\<dots> = [0, 1, 0] ! a" using that(1)
      by (auto simp: tensor2_def less_Suc_eq numeral_3_eq_3)
    finally show ?thesis .
  qed
  from A[OF bc1 el1] A[OF bc2 el2] show ?thesis by blast
qed

section \<open>Group ids out of range\<close>

lemma exists_valid:
  fixes s :: "nat list"
  assumes "prod_list s \<noteq> 0" "d < length s" "i < s ! d"
  shows "list_all2 (<) ((replicate (length s) 0)[d := i]) s"
proof -
  have "0 < s ! j" if "j < length s" for j
  proof -
    have "s ! j \<in> set s" using that by simp
    moreover have "0 \<notin> set s" using assms(1) by (simp add: prod_list_zero_iff)
    ultimately show ?thesis by (metis gr0I)
  qed
  then show ?thesis
    using assms by (auto simp: list_all2_conv_all_nth nth_list_update)
qed

lemma zeros_negative:
  assumes "k < 0" "d < length s"
  shows "zeros ((map int s)[d := k]) fl = (Inl SizeError :: error + ('a::zero) tensor)"
proof -
  have "k \<in> set ((map int s)[d := k])" using assms(2) by (simp add: set_update_memI)
  then have "list_ex (\<lambda>n. n < 0) ((map int s)[d := k])" using assms(1) by (auto simp: list_ex_iff)
  then show ?thesis by (simp add: zeros_def)
qed

lemma positive_extents:
  fixes s :: "nat list"
  assumes "prod_list s \<noteq> 0" "j < length s"
  shows "0 < s ! j"
proof -
  have "s ! j \<in> set s" using assms(2) by simp
  moreover have "0 \<notin> set s" using assms(1) by (simp add: prod_list_zero_iff)
  ultimately show ?thesis by (metis gr0I)
qed

lemma broadcast_entry_hit:
  fixes index :: "'a tensor" and src :: "'b tensor"
  assumes bc: "broadcast index src axis = Inr ix"
      and ne: "numel src \<noteq> 0"
      and r: "valid_idx (shape index) r"
  shows "\<exists>q. valid_idx (shape src) q \<and> elem ix q = elem index r"
proof -
  let ?l = "lead_axes index src axis" and ?ps = "padded_shape index src axis"
  let ?m = "rank src - (?l + rank index)"
  let ?f = "\<lambda>s i. if s = (1::nat) then (0::nat) else i"
  have ok: "list_all2 (\<lambda>s z. s = z \<or> s = 1) ?ps (shape src)"
  proof (rule ccontr)
    assume "\<not> ?thesis"
    from broadcast_general_fail[OF this] bc show False by simp
  qed
  from broadcast_general_elem[OF ok] bc have
    el: "\<And>idx. length idx = rank src \<Longrightarrow>
           elem ix idx = elem index (take (rank index) (drop ?l (map2 ?f ?ps idx)))"
    by auto
  have lr: "length r = rank index" using r by (auto simp: valid_idx_def rank_def dest: list_all2_lengthD)
  have rn: "r ! j < shape index ! j" if "j < rank index" for j
    using r that by (simp add: valid_idx_def list_all2_conv_all_nth rank_def)
  have lps: "length ?ps = ?l + rank index + ?m" by (simp add: padded_shape_def rank_def)
  have lp: "length ?ps = rank src" using ok by (auto simp: rank_def dest: list_all2_lengthD)
  let ?q = "replicate ?l 0 @ r @ replicate ?m 0"
  have lq: "length ?q = rank src" using lps lp lr by simp
  have psn: "?ps ! j = shape src ! j \<or> ?ps ! j = 1" if "j < rank src" for j
    using ok that lp by (simp add: list_all2_conv_all_nth)
  have pos: "0 < shape src ! j" if "j < rank src" for j
    using positive_extents[of "shape src" j] ne that by (simp add: numel_def rank_def)
  have mid: "?ps ! j = shape index ! (j - ?l)" if "?l \<le> j" "j < ?l + rank index" for j
  proof -
    have "j - ?l < length (shape index)" using that by (simp add: rank_def)
    then show ?thesis using that(1) by (simp add: padded_shape_def nth_append)
  qed
  have qmid: "?q ! j = r ! (j - ?l)" if "?l \<le> j" "j < ?l + rank index" for j
  proof -
    have "j - ?l < length r" using that lr by arith
    then show ?thesis using that(1) by (simp add: nth_append)
  qed
  have qout: "?q ! j = 0" if "j < ?l \<or> ?l + rank index \<le> j" "j < rank src" for j
    using that lr lq by (auto simp: nth_append)
  have pout: "?ps ! j = 1" if "j < ?l \<or> ?l + rank index \<le> j" "j < rank src" for j
    using that lp lps by (auto simp: padded_shape_def nth_append rank_def)
  have vq: "valid_idx (shape src) ?q"
    unfolding valid_idx_def list_all2_conv_all_nth
  proof (intro conjI allI impI)
    show "length ?q = length (shape src)" using lq by (simp add: rank_def)
  next
    fix j assume "j < length ?q"
    then have j: "j < rank src" using lq by simp
    show "?q ! j < shape src ! j"
    proof (cases "?l \<le> j \<and> j < ?l + rank index")
      case True
      then have a: "?l \<le> j" and b: "j < ?l + rank index" by simp_all
      have "r ! (j - ?l) < ?ps ! j" using rn[of "j - ?l"] a b mid[OF a b] by simp
      with psn[OF j] pos[OF j] qmid[OF a b] show ?thesis by auto
    next
      case False
      then have "j < ?l \<or> ?l + rank index \<le> j" by auto
      from qout[OF this j] pos[OF j] show ?thesis by simp
    qed
  qed
  have fq: "map2 ?f ?ps ?q = ?q"
  proof (rule nth_equalityI)
    show "length (map2 ?f ?ps ?q) = length ?q" using lp lq by simp
  next
    fix j assume "j < length (map2 ?f ?ps ?q)"
    then have j: "j < rank src" using lp lq by simp
    have jj: "j < length ?ps" "j < length ?q" using j lp lq by simp_all
    have "?ps ! j = 1 \<longrightarrow> ?q ! j = 0"
    proof (cases "?l \<le> j \<and> j < ?l + rank index")
      case True
      then have a: "?l \<le> j" and b: "j < ?l + rank index" by simp_all
      show ?thesis using rn[of "j - ?l"] a b mid[OF a b] qmid[OF a b] by auto
    next
      case False
      then have "j < ?l \<or> ?l + rank index \<le> j" by auto
      from qout[OF this j] show ?thesis by simp
    qed
    then show "map2 ?f ?ps ?q ! j = ?q ! j" using jj by auto
  qed
  have "take (rank index) (drop ?l ?q) = r" using lr by simp
  with el[OF lq] fq have "elem ix ?q = elem index r" by simp
  with vq show ?thesis by blast
qed

lemma scatter_sum_bad_entry:
  fixes src :: "('a::{plus,zero}) tensor"
  assumes rd: "resolve_dim (rank src) axis = Inr d"
      and bc: "broadcast index src axis = Inr ix"
      and q: "valid_idx (shape src) q"
      and b: "elem ix q < 0 \<or> dim_size \<le> elem ix q"
  shows "scatter_sum src index axis None (Some dim_size)
           = (if 0 \<le> dim_size then Inl IndexError else Inl SizeError)"
proof -
  let ?s = "shape src"
  from resolve_dim_Inr[OF rd] have dl: "d < length ?s" by (simp add: rank_def)
  have qi: "q \<in> set (indices ?s)" using q by (simp add: set_indices valid_idx_def)
  then have ne: "numel src \<noteq> 0" by (simp add: numel_def indices_nonempty)
  show ?thesis
  proof (cases "0 \<le> dim_size")
    case True
    with b have "elem ix q < 0 \<or> int (nat dim_size) \<le> elem ix q" by simp
    with qi have "list_ex (\<lambda>q. elem ix q < 0 \<or> int (nat dim_size) \<le> elem ix q) (indices ?s)"
      unfolding list_ex_iff by blast
    then show ?thesis using ne True by (simp add: scatter_sum_fresh[OF rd bc True])
  next
    case False
    then show ?thesis using dl by (simp add: scatter_sum_def bc rd zeros_negative)
  qed
qed

text \<open>
  C8. Take a value tensor with at least one element, any index tensor and an
  explicit \<open>dim_size\<close>, \<open>out\<close> omitted. If some group id of the index is negative or
  not below \<open>dim_size\<close>, \<^verbatim>\<open>scatter_sum\<close> fails and returns no tensor: every entry of
  the index is the group id of some element of the value tensor, and torch tests
  the id when it adds the element. The failure is the index error of
  \<^verbatim>\<open>scatter_add_\<close> whenever nothing else is wrong with the call: the axis is in
  range, the index broadcasts against the value tensor, and \<open>dim_size\<close> is not
  negative.
\<close>

theorem scatter_sum_out_of_bounds:
  fixes src :: "('a::{plus,zero}) tensor"
  assumes ne: "numel src \<noteq> 0"
      and bad: "\<exists>r. valid_idx (shape index) r \<and> (elem index r < 0 \<or> dim_size \<le> elem index r)"
  shows "(\<exists>e. scatter_sum src index axis None (Some dim_size) = Inl e)
         \<and> (0 \<le> dim_size \<and> (\<exists>d. resolve_dim (rank src) axis = Inr d)
              \<and> (\<exists>ix. broadcast index src axis = Inr ix)
            \<longrightarrow> scatter_sum src index axis None (Some dim_size) = Inl IndexError)"
proof (cases "broadcast index src axis")
  case (Inl e)
  then show ?thesis by (simp add: scatter_sum_def)
next
  case (Inr ix)
  show ?thesis
  proof (cases "resolve_dim (rank src) axis")
    case (Inl e)
    with Inr show ?thesis by (simp add: scatter_sum_def)
  next
    case rd: (Inr d)
    from bad obtain r where r: "valid_idx (shape index) r"
      and b: "elem index r < 0 \<or> dim_size \<le> elem index r" by blast
    from broadcast_entry_hit[OF Inr ne r] obtain q where q: "valid_idx (shape src) q"
      and e: "elem ix q = elem index r" by blast
    from b e have b': "elem ix q < 0 \<or> dim_size \<le> elem ix q" by simp
    from scatter_sum_bad_entry[OF rd Inr q b'] show ?thesis by simp
  qed
qed

text \<open>
  Without an element in the value tensor the index is broadcast to a tensor of no
  element, and no group id is read: values of shape \<open>(2, 0)\<close>, index \<open>[5, 7]\<close>,
  \<open>dim_size = 3\<close> give a tensor of shape \<open>(3, 0)\<close>.
\<close>

theorem scatter_sum_out_of_bounds_counterexample:
  "valid_idx (shape (tensor1 [5, 7::int] False)) [0]
   \<and> (3::int) \<le> elem (tensor1 [5, 7] False) [0]
   \<and> map_sum id shape (scatter_sum (ones [2, 0] False :: int tensor) (tensor1 [5, 7] False)
                         0 None (Some 3)) = Inr [3, 0]"
  by (simp add: scatter_sum_def broadcast_def expand_def unsqueeze_def rank_def tensor1_def
        ones_def resolve_dim_def zeros_def scatter_add_inplace_def scatter_add_nd_def as_1d_def numel_def Let_def valid_idx_def)

theorem scatter_sum_out_of_bounds_witness:
  "scatter_sum (tensor2 [[1,2],[3,4],[5,6]] False :: int tensor) (tensor1 [0,3,1] False)
      0 None (Some 2) = Inl IndexError
   \<and> scatter_sum (tensor2 [[1,2],[3,4],[5,6]] False :: int tensor) (tensor2 [[0],[-1],[1]] False)
      0 None (Some 2) = Inl IndexError"
proof -
  let ?src = "tensor2 [[1,2],[3,4],[5,6]] False :: int tensor"
  let ?ix = "tensor1 [0,3,1] False :: int tensor"
  let ?jx = "tensor2 [[0],[-1],[1]] False :: int tensor"
  have rd: "\<exists>d. resolve_dim (rank ?src) 0 = Inr d"
    by (simp add: resolve_dim_def rank_def tensor2_def)
  have ne: "numel ?src \<noteq> 0" by (simp add: numel_def tensor2_def)
  have k0: "(0::int) \<le> 2" by simp
  have b1: "\<exists>ix. broadcast ?ix ?src 0 = Inr ix"
    by (simp add: broadcast_def expand_def unsqueeze_def rank_def tensor1_def tensor2_def Let_def)
  have b2: "\<exists>ix. broadcast ?jx ?src 0 = Inr ix"
    by (simp add: broadcast_def expand_def unsqueeze_def rank_def tensor2_def Let_def)
  have "valid_idx (shape ?ix) [1] \<and> (elem ?ix [1] < 0 \<or> 2 \<le> elem ?ix [1])"
    by (simp add: tensor1_def valid_idx_def)
  then have bad1: "\<exists>r. valid_idx (shape ?ix) r \<and> (elem ?ix r < 0 \<or> 2 \<le> elem ?ix r)" by blast
  have "valid_idx (shape ?jx) [1, 0] \<and> (elem ?jx [1, 0] < 0 \<or> 2 \<le> elem ?jx [1, 0])"
    by (simp add: tensor2_def valid_idx_def)
  then have bad2: "\<exists>r. valid_idx (shape ?jx) r \<and> (elem ?jx r < 0 \<or> 2 \<le> elem ?jx r)" by blast
  from scatter_sum_out_of_bounds[OF ne bad1, of 0, THEN conjunct2, THEN mp] k0 rd b1
  have 1: "scatter_sum ?src ?ix 0 None (Some 2) = Inl IndexError" by blast
  from scatter_sum_out_of_bounds[OF ne bad2, of 0, THEN conjunct2, THEN mp] k0 rd b2
  have 2: "scatter_sum ?src ?jx 0 None (Some 2) = Inl IndexError" by blast
  from 1 2 show ?thesis by blast
qed

section \<open>The shape of the sum\<close>

lemma tensor_max_Inr:
  "tensor_max t = Inr m \<Longrightarrow> m = Max (set (elems t)) \<and> elems t \<noteq> []"
proof -
  assume a: "tensor_max t = Inr m"
  then obtain x xs where e: "elems t = x # xs" and m: "m = fold max xs x"
    by (auto simp: tensor_max_def split: list.splits)
  have "Max (set (x # xs)) = fold max xs x" by (rule Max.set_eq_fold)
  with e m show ?thesis by simp
qed

lemma zeros_Inr:
  "zeros ((map int s)[d := k]) fl = Inr out \<Longrightarrow> d < length s
   \<Longrightarrow> shape out = s[d := nat k] \<and> 0 \<le> k"
proof -
  assume z: "zeros ((map int s)[d := k]) fl = Inr out" and d: "d < length s"
  have k: "k \<in> set ((map int s)[d := k])" using d by (simp add: set_update_memI)
  from z have nl: "\<not> list_ex (\<lambda>n. n < 0) ((map int s)[d := k])"
    and so: "shape out = map nat ((map int s)[d := k])"
    by (auto simp: zeros_def split: if_splits)
  from nl k have "0 \<le> k" by (auto simp: list_ex_iff)
  moreover have "map nat ((map int s)[d := k]) = s[d := nat k]"
    by (simp add: map_update comp_def)
  ultimately show ?thesis using so by simp
qed

lemma elems_broadcast_1d:
  assumes rd: "resolve_dim (rank src) axis = Inr d"
      and sh: "shape index = [shape src ! d]"
      and bc: "broadcast index src axis = Inr ix"
      and ne: "numel src \<noteq> 0"
  shows "set (elems ix) = (\<lambda>i. elem index [i]) ` {..<shape src ! d}"
proof -
  let ?s = "shape src"
  from resolve_dim_Inr[OF rd] have dl: "d < length ?s" by (simp add: rank_def)
  from broadcast_index_1d[OF rd sh] bc have
    el: "\<And>q. list_all2 (<) q ?s \<Longrightarrow> elem ix q = elem index [q ! d]"
    by auto
  have si: "shape ix = ?s" by (rule broadcast_shape[OF bc])
  show ?thesis
  proof (rule set_eqI, rule iffI)
    fix x assume "x \<in> set (elems ix)"
    then obtain q where q: "list_all2 (<) q ?s" and x: "x = elem ix q"
      by (auto simp: elems_def si set_indices)
    from valid_nth[OF q dl] have "q ! d < ?s ! d" by simp
    with x el[OF q] show "x \<in> (\<lambda>i. elem index [i]) ` {..<?s ! d}" by auto
  next
    fix x assume "x \<in> (\<lambda>i. elem index [i]) ` {..<?s ! d}"
    then obtain i where i: "i < ?s ! d" and x: "x = elem index [i]" by auto
    let ?q = "(replicate (length ?s) 0)[d := i]"
    have v: "list_all2 (<) ?q ?s" using ne dl i by (intro exists_valid) (simp_all add: numel_def)
    have "elem ix ?q = x" using el[OF v] dl x by simp
    moreover have "?q \<in> set (indices (shape ix))" using v by (simp add: set_indices si)
    ultimately show "x \<in> set (elems ix)" unfolding elems_def by force
  qed
qed

text \<open>
  The shape of every tensor that \<^verbatim>\<open>scatter_sum\<close> returns with \<open>out\<close> omitted: the rank
  and the extents of the value tensor on every axis but the resolved \<open>dim\<close>, and
  there \<open>dim_size\<close> when it is given, 0 when the value tensor has no element, and
  the largest entry of the broadcast index plus one otherwise. For an index with one
  entry per row and a value tensor with elements, the entries of the broadcast index
  are those of the index.
\<close>

lemma scatter_sum_shape:
  fixes src :: "('a::{plus,zero}) tensor"
  assumes ok: "scatter_sum src index axis None dim_size = Inr out"
  shows "\<exists>d ix. resolve_dim (rank src) axis = Inr d \<and> broadcast index src axis = Inr ix
           \<and> rank out = rank src
           \<and> (\<forall>j < rank src. j \<noteq> d \<longrightarrow> shape out ! j = shape src ! j)
           \<and> (case dim_size of
                 Some n \<Rightarrow> int (shape out ! d) = n
               | None \<Rightarrow> if numel src = 0 then shape out ! d = 0
                         else int (shape out ! d) = Max (set (elems ix)) + 1)
           \<and> (shape index = [shape src ! d] \<and> numel src \<noteq> 0 \<longrightarrow>
                 set (elems ix) = (\<lambda>i. elem index [i]) ` {..<shape src ! d})"
proof -
  let ?s = "shape src"
  from ok obtain ix where bc: "broadcast index src axis = Inr ix"
    by (auto simp: scatter_sum_def split: sum.splits)
  from ok bc obtain d where rd: "resolve_dim (rank src) axis = Inr d"
    by (auto simp: scatter_sum_def split: sum.splits)
  from resolve_dim_Inr[OF rd] have dl: "d < length ?s" by (simp add: rank_def)
  have si: "shape ix = ?s" by (rule broadcast_shape[OF bc])
  have nix: "numel ix = numel src" by (simp add: numel_def si)
  define e where "e = (case dim_size of
       Some n \<Rightarrow> (Inr n :: error + int)
     | None \<Rightarrow> if numel ix = 0 then Inr 0
               else (case tensor_max ix of Inl e \<Rightarrow> Inl e | Inr m \<Rightarrow> Inr (m + 1)))"
  from ok bc rd obtain n out0 where en: "e = Inr n"
    and z: "zeros ((map int ?s)[d := n]) (is_floating_point src) = Inr (out0 :: 'a tensor)"
    and sc: "scatter_add_inplace out0 axis ix src = Inr out"
    unfolding scatter_sum_def e_def by (auto split: sum.splits)
  from zeros_Inr[OF z dl] have s0: "shape out0 = ?s[d := nat n]" and n0: "0 \<le> n" by simp_all
  have so: "shape out = ?s[d := nat n]" using scatter_add_inplace_shape[OF sc] s0 by simp
  have r: "rank out = rank src" by (simp add: rank_def so)
  have oth: "\<forall>j < rank src. j \<noteq> d \<longrightarrow> shape out ! j = ?s ! j" by (simp add: so)
  have ext: "int (shape out ! d) = n" using dl n0 by (simp add: so)
  have c: "case dim_size of
             Some n \<Rightarrow> int (shape out ! d) = n
           | None \<Rightarrow> if numel src = 0 then shape out ! d = 0
                     else int (shape out ! d) = Max (set (elems ix)) + 1"
  proof (cases dim_size)
    case (Some k)
    with en ext show ?thesis by (simp add: e_def)
  next
    case None
    show ?thesis
    proof (cases "numel src = 0")
      case True
      with None en nix have "n = 0" by (simp add: e_def)
      with None True ext show ?thesis by simp
    next
      case False
      with None en nix obtain m where m: "tensor_max ix = Inr m" "n = m + 1"
        by (auto simp: e_def split: sum.splits)
      from tensor_max_Inr[OF m(1)] m(2) None False ext show ?thesis by simp
    qed
  qed
  have l: "shape index = [?s ! d] \<and> numel src \<noteq> 0 \<longrightarrow>
             set (elems ix) = (\<lambda>i. elem index [i]) ` {..<?s ! d}"
    using elems_broadcast_1d[OF rd _ bc] by blast
  from rd bc r oth c l show ?thesis by blast
qed

lemma scatter_sum_shape_example:
  "\<exists>out. scatter_sum (tensor2 [[1,2],[3,4],[5,6]] False :: int tensor) (tensor1 [0,1,0] False)
            0 None None = Inr out
         \<and> rank out = 2 \<and> shape out ! 0 = 2 \<and> shape out ! 1 = 2"
proof -
  let ?src = "tensor2 [[1,2],[3,4],[5,6]] False :: int tensor"
  let ?ix = "tensor1 [0,1,0] False :: int tensor"
  have "\<exists>out. scatter_sum ?src ?ix 0 None None = Inr out"
    by (simp add: scatter_sum_def broadcast_def expand_def unsqueeze_def rank_def tensor1_def
        tensor2_def resolve_dim_def zeros_def scatter_add_inplace_def scatter_add_nd_def as_1d_def numel_def Let_def
        tensor_max_def elems_def)
  then obtain out where ok: "scatter_sum ?src ?ix 0 None None = Inr out" by blast
  have rd: "resolve_dim (rank ?src) 0 = Inr 0"
    by (simp add: resolve_dim_def rank_def tensor2_def)
  have sh: "shape ?ix = [shape ?src ! 0]" by (simp add: tensor1_def tensor2_def)
  have ne: "numel ?src \<noteq> 0" by (simp add: numel_def tensor2_def)
  from scatter_sum_shape[OF ok] rd obtain ix where
    r: "rank out = rank ?src" and
    o: "\<forall>j < rank ?src. j \<noteq> 0 \<longrightarrow> shape out ! j = shape ?src ! j" and
    e: "int (shape out ! 0) = Max (set (elems ix)) + 1" and
    l: "set (elems ix) = (\<lambda>i. elem ?ix [i]) ` {..<shape ?src ! 0}"
    using sh ne by auto
  have img: "(\<lambda>i. elem ?ix [i]) ` {..<shape ?src ! 0} = {0, 1}"
    by (auto simp: tensor1_def tensor2_def lessThan_Suc numeral_3_eq_3)
  have "shape out ! 0 = 2" using e unfolding l img by simp
  moreover have "shape out ! 1 = 2" using o by (simp add: rank_def tensor2_def)
  moreover have "rank out = 2" using r by (simp add: rank_def tensor2_def)
  ultimately show ?thesis using ok by blast
qed

lemma scatter_sum_no_element:
  "scatter_sum (ones [2, 0] False :: ('a::{plus,zero,one}) tensor) (tensor1 [0, 1] False) 0 None None
           = Inr \<lparr>shape = [0, 0], elem = (\<lambda>_. 0), is_floating_point = False\<rparr>"
    by (simp add: scatter_sum_def broadcast_def expand_def unsqueeze_def rank_def tensor1_def
        ones_def resolve_dim_def zeros_def scatter_add_inplace_def scatter_add_nd_def as_1d_def numel_def Let_def)

text \<open>
  C2. The claim gives the output of \<^verbatim>\<open>scatter_sum\<close>, with \<open>out\<close> and \<open>dim_size\<close>
  omitted, the extent \<open>max(index) + 1\<close> at \<open>dim\<close> unless the index buffer is empty, as
  the docstring of \<^verbatim>\<open>scatter\<close> does (\<^verbatim>\<open>index.max() + 1\<close>). The code tests
  \<^verbatim>\<open>index.numel() == 0\<close> on the index that line 37 has already broadcast to the shape
  of the value tensor. For values of shape \<open>(2, 0)\<close> and the index \<open>[0, 1]\<close>, which
  has two entries and the largest entry 1, the extent is 0 and not 2; and
  \<^verbatim>\<open>scatter_mean\<close>, which passes that extent on as \<open>dim_size\<close> to count the rows of
  each group, fails on the same input with the index error.
\<close>

theorem scatter_sum_shape_failing_input:
  "numel (tensor1 [0, 1::int] False) = 2
   \<and> tensor_max (tensor1 [0, 1::int] False) = Inr 1
   \<and> map_sum id shape (scatter_sum (ones [2, 0] False :: int tensor) (tensor1 [0, 1] False)
                         0 None None) = Inr [0, 0]
   \<and> scatter_mean (ones [2, 0] False :: rat tensor) (tensor1 [0, 1] False) 0 None None
       = Inl IndexError"
proof -
  have a: "numel (tensor1 [0, 1::int] False) = 2 \<and> tensor_max (tensor1 [0, 1::int] False) = Inr 1"
    by (simp add: tensor1_def numel_def tensor_max_def elems_def)
  have c: "scatter_sum (ones [2] False :: rat tensor) (tensor1 [0, 1] False) 0 None (Some 0)
           = Inl IndexError"
    by (simp add: scatter_sum_def broadcast_def expand_def rank_def tensor1_def
        ones_def resolve_dim_def zeros_def scatter_add_inplace_def scatter_add_nd_def as_1d_def numel_def Let_def
        numeral_2_eq_2)
  have sz: "size_at \<lparr>shape = [0, 0], elem = (\<lambda>_. 0::rat), is_floating_point = False\<rparr> 0 = Inr 0"
    by (simp add: size_at_def resolve_dim_def rank_def)
  have f: "rank (tensor1 [0, 1::int] False) = 1" "rank (ones [2, 0] False :: rat tensor) = 2"
    "shape (tensor1 [0, 1::int] False) = [2]"
    "is_floating_point (ones [2, 0] False :: rat tensor) = False"
    by (simp_all add: rank_def tensor1_def ones_def)
  have m: "scatter_mean (ones [2, 0] False :: rat tensor) (tensor1 [0, 1] False) 0 None None
       = Inl IndexError"
    unfolding scatter_mean_def scatter_sum_no_element by (simp add: sz f c Let_def)
  from a scatter_sum_no_element[where ?'a = int] m show ?thesis by simp
qed

section \<open>The mean reduction\<close>

lemma index_dim_1d:
  assumes rd: "resolve_dim (rank src) axis = Inr d" and r1: "rank index = 1"
  shows "(let index_dim = axis;
              index_dim = (if index_dim < 0 then index_dim + int (rank src) else index_dim);
              index_dim = (if int (rank index) \<le> index_dim then int (rank index) - 1
                           else index_dim)
          in index_dim) = 0"
proof -
  from resolve_dim_Inr[OF rd] have "(if axis < 0 then axis + int (rank src) else axis) = int d"
    by (auto split: if_splits)
  then show ?thesis by (auto simp: Let_def r1 split: if_splits)
qed

lemma size_at_update:
  assumes rd: "resolve_dim (rank src) axis = Inr d" and so: "shape out = (shape src)[d := m]"
  shows "size_at out axis = Inr m"
proof -
  from resolve_dim_Inr[OF rd] have dl: "d < length (shape src)" by (simp add: rank_def)
  have "rank out = rank src" by (simp add: rank_def so)
  then show ?thesis using rd dl by (simp add: size_at_def so)
qed

lemma count_1d:
  fixes index :: "int tensor"
  assumes k0: "0 \<le> k"
      and sh: "shape index = [n]"
      and rng: "\<forall>i < n. 0 \<le> elem index [i] \<and> elem index [i] < k"
  shows "\<exists>count. scatter_sum (ones (shape index) fl :: ('a::floor_ceiling) tensor) index 0 None (Some k)
                   = Inr count
           \<and> shape count = [nat k]
           \<and> (\<forall>g < nat k. elem count [g] = of_nat (card {i. i < n \<and> elem index [i] = int g}))"
proof -
  let ?ones = "ones (shape index) fl :: 'a tensor"
  have so: "shape ?ones = [n]" by (simp add: ones_def sh)
  have rd: "resolve_dim (rank ?ones) 0 = Inr 0" by (simp add: resolve_dim_def rank_def so)
  have sh': "shape index = [shape ?ones ! 0]" by (simp add: ones_def sh)
  have rng': "numel ?ones \<noteq> 0 \<longrightarrow>
               (\<forall>i < shape ?ones ! 0. 0 \<le> elem index [i] \<and> elem index [i] < k)"
    using rng by (simp add: so)
  from scatter_sum_1d[OF rd sh' k0 rng'] obtain count where
    c: "scatter_sum ?ones index 0 None (Some k) = Inr count" and
    sc: "shape count = (shape ?ones)[0 := nat k]" and
    v: "\<And>p. valid_idx (shape count) p \<Longrightarrow>
          elem count p = (\<Sum>i | i < shape ?ones ! 0 \<and> elem index [i] = int (p ! 0).
                            elem ?ones (p[0 := i]))"
    by blast
  have sc': "shape count = [nat k]" by (simp add: sc so)
  have "elem count [g] = of_nat (card {i. i < n \<and> elem index [i] = int g})" if g: "g < nat k" for g
  proof -
    have "valid_idx (shape count) [g]" using g by (simp add: valid_idx_def sc')
    from v[OF this] have "elem count [g] = (\<Sum>i | i < n \<and> elem index [i] = int g. (1::'a))"
      by (simp add: ones_def sh)
    then show ?thesis by simp
  qed
  with c sc' show ?thesis by blast
qed

lemma scatter_mean_1d:
  fixes src :: "('a::floor_ceiling) tensor"
  assumes rd: "resolve_dim (rank src) axis = Inr d"
      and sh: "shape index = [shape src ! d]"
      and k0: "0 \<le> k"
      and rng: "\<forall>i < shape src ! d. 0 \<le> elem index [i] \<and> elem index [i] < k"
  shows "\<exists>out. scatter_mean src index axis None (Some k) = Inr out
           \<and> shape out = (shape src)[d := nat k]
           \<and> (\<forall>p. valid_idx (shape out) p \<longrightarrow>
                 elem out p =
                   (let G = {i. i < shape src ! d \<and> elem index [i] = int (p ! d)};
                        S = (\<Sum>i \<in> G. elem src (p[d := i]))
                    in if card G = 0 then 0
                       else if is_floating_point src then S / of_nat (card G)
                       else of_int \<lfloor>S / of_nat (card G)\<rfloor>))"
proof -
  let ?s = "shape src" and ?n = "shape src ! d"
  from resolve_dim_Inr[OF rd] have dl: "d < length ?s" by (simp add: rank_def)
  have rng': "numel src \<noteq> 0 \<longrightarrow> (\<forall>i < ?n. 0 \<le> elem index [i] \<and> elem index [i] < k)"
    using rng by simp
  from scatter_sum_1d[OF rd sh k0 rng'] obtain out1 where
    o1: "scatter_sum src index axis None (Some k) = Inr out1" and
    s1: "shape out1 = ?s[d := nat k]" and
    f1: "is_floating_point out1 = is_floating_point src" and
    v1: "\<And>p. valid_idx (shape out1) p \<Longrightarrow>
          elem out1 p = (\<Sum>i | i < ?n \<and> elem index [i] = int (p ! d). elem src (p[d := i]))"
    by blast
  have sz: "size_at out1 axis = Inr (nat k)" by (rule size_at_update[OF rd s1])
  have r1: "rank index = 1" by (simp add: rank_def sh)
  note idim = index_dim_1d[OF rd r1]
  have kk: "int (nat k) = k" using k0 by simp
  from count_1d[OF k0 sh rng, where ?'a = 'a and fl = "is_floating_point src"] obtain count where
    c: "scatter_sum (ones (shape index) (is_floating_point src) :: 'a tensor) index 0 None (Some k)
          = Inr count" and
    sc: "shape count = [nat k]" and
    vc: "\<And>g. g < nat k \<Longrightarrow>
           elem count [g] = of_nat (card {i. i < ?n \<and> elem index [i] = int g})"
    by blast
  let ?cc = "clamp_count count"
  have scc: "shape ?cc = [shape out1 ! d]" using dl by (simp add: clamp_count_def sc s1)
  have rd1: "resolve_dim (rank out1) axis = Inr d" using rd by (simp add: rank_def s1)
  from broadcast_index_1d[OF rd1 scc] obtain cnt where
    bc: "broadcast ?cc out1 axis = Inr cnt" and
    scn: "shape cnt = shape out1" and
    vcn: "\<And>q. list_all2 (<) q (shape out1) \<Longrightarrow> elem cnt q = elem ?cc [q ! d]"
    by blast
  define out where "out = (if is_floating_point out1
       then out1\<lparr>elem := (\<lambda>idx. elem out1 idx / elem cnt idx)\<rparr>
       else out1\<lparr>elem := (\<lambda>idx. of_int \<lfloor>elem out1 idx / elem cnt idx\<rfloor>)\<rparr>)"
  have res: "scatter_mean src index axis None (Some k) = Inr out"
    unfolding scatter_mean_def o1 sum.case sz idim[unfolded Let_def] Let_def kk c bc
    by (simp add: true_divide_inplace_def div_floor_inplace_def scn out_def)
  have so: "shape out = ?s[d := nat k]" by (simp add: out_def s1)
  have val: "elem out p =
                   (let G = {i. i < ?n \<and> elem index [i] = int (p ! d)};
                        S = (\<Sum>i \<in> G. elem src (p[d := i]))
                    in if card G = 0 then 0
                       else if is_floating_point src then S / of_nat (card G)
                       else of_int \<lfloor>S / of_nat (card G)\<rfloor>)"
    if vp: "valid_idx (shape out) p" for p
  proof -
    let ?G = "{i. i < ?n \<and> elem index [i] = int (p ! d)}"
    let ?S = "\<Sum>i \<in> ?G. elem src (p[d := i])"
    from vp have v: "list_all2 (<) p (shape out1)" by (simp add: valid_idx_def so s1)
    have "d < length (shape out1)" using dl by (simp add: s1)
    from valid_nth[OF v this] have pd: "p ! d < nat k" using dl by (simp add: s1)
    have e1: "elem out1 p = ?S" using v1[of p] v by (simp add: valid_idx_def)
    define c where "c = card ?G"
    have cval: "elem count [p ! d] = of_nat c" unfolding c_def by (rule vc[OF pd])
    have lt: "((of_nat c :: 'a) < 1) = (c = 0)"
      using of_nat_less_iff[of c 1, where ?'a = 'a] by simp
    have "elem cnt p = (if elem count [p ! d] < 1 then 1 else elem count [p ! d])"
      using vcn[OF v] by (simp add: clamp_count_def)
    then have "elem cnt p = (if c = 0 then 1 else of_nat c)"
      unfolding cval lt .
    then have ec: "elem cnt p = (if card ?G = 0 then 1 else of_nat (card ?G))"
      unfolding c_def .
    have fin: "finite ?G" by simp
    show ?thesis
    proof (cases "card ?G = 0")
      case True
      then have g0: "?G = {}" using fin by simp
      have "?S = 0" by (simp only: g0 sum.empty)
      with e1 have e0: "elem out1 p = 0" by simp
      from True ec have ec1: "elem cnt p = 1" by simp
      have "elem out p = 0" by (simp add: out_def e0 ec1)
      with True show ?thesis by (simp add: Let_def)
    next
      case False
      with ec have ec2: "elem cnt p = of_nat (card ?G)" by simp
      have h: "elem out p = (if is_floating_point src then ?S / of_nat (card ?G)
                          else of_int \<lfloor>?S / of_nat (card ?G)\<rfloor>)"
        by (simp add: out_def f1 e1 ec2)
      show ?thesis unfolding Let_def if_not_P[OF False] by (rule h)
    qed
  qed
  from res so val show ?thesis by blast
qed

lemma tensor_max_ok: "numel t \<noteq> 0 \<Longrightarrow> \<exists>m. tensor_max t = Inr m"
proof -
  assume "numel t \<noteq> 0"
  then have "length (elems t) \<noteq> 0" by (simp add: elems_def length_indices numel_def)
  then show ?thesis by (cases "elems t") (auto simp: tensor_max_def)
qed

lemma scatter_sum_None:
  fixes src :: "('a::{plus,zero}) tensor"
  assumes bc: "broadcast index src axis = Inr ix" and ne: "numel src \<noteq> 0"
      and tm: "tensor_max ix = Inr m"
  shows "scatter_sum src index axis None None = scatter_sum src index axis None (Some (m + 1))"
proof -
  have "numel ix = numel src" by (simp add: numel_def broadcast_shape[OF bc])
  with ne show ?thesis by (simp add: scatter_sum_def bc tm split: sum.splits)
qed

lemma max_index_1d:
  assumes rd: "resolve_dim (rank src) axis = Inr d"
      and sh: "shape index = [shape src ! d]"
      and ne: "numel src \<noteq> 0"
  shows "\<exists>ix. broadcast index src axis = Inr ix
            \<and> tensor_max ix = Inr (Max ((\<lambda>i. elem index [i]) ` {..<shape src ! d}))
            \<and> 0 < shape src ! d"
proof -
  from resolve_dim_Inr[OF rd] have dl: "d < length (shape src)" by (simp add: rank_def)
  from broadcast_index_1d[OF rd sh] obtain ix where bc: "broadcast index src axis = Inr ix"
    by blast
  have "numel ix = numel src" by (simp add: numel_def broadcast_shape[OF bc])
  with ne tensor_max_ok[of ix] obtain m where m: "tensor_max ix = Inr m" by auto
  from tensor_max_Inr[OF m] elems_broadcast_1d[OF rd sh bc ne]
  have "m = Max ((\<lambda>i. elem index [i]) ` {..<shape src ! d})" by simp
  moreover have "0 < shape src ! d"
  proof -
    have "shape src ! d \<in> set (shape src)" using dl by simp
    moreover have "0 \<notin> set (shape src)" using ne by (simp add: numel_def prod_list_zero_iff)
    ultimately show ?thesis by (metis gr0I)
  qed
  ultimately show ?thesis using bc m by blast
qed

text \<open>
  For an index with one entry per row of the value tensor along the axis,
  \<^verbatim>\<open>scatter_mean\<close> returns the mean of every group: the sum of the rows of the group
  divided by their number, by true division for a floating-point tensor and by
  floor division otherwise, and zero for a group with no row.
\<close>

lemma scatter_mean_one_entry_per_row:
  fixes src :: "('a::floor_ceiling) tensor"
  assumes rd: "resolve_dim (rank src) axis = Inr d"
      and sh: "shape index = [shape src ! d]"
      and ds: "case dim_size of
                 Some k \<Rightarrow> 0 \<le> k \<and> (\<forall>i < shape src ! d. 0 \<le> elem index [i] \<and> elem index [i] < k)
               | None \<Rightarrow> numel src \<noteq> 0 \<and> (\<forall>i < shape src ! d. 0 \<le> elem index [i])"
  shows "\<exists>out. scatter_mean src index axis None dim_size = Inr out
           \<and> (\<exists>e. shape out = (shape src)[d := e] \<and> (\<forall>k. dim_size = Some k \<longrightarrow> e = nat k))
           \<and> (\<forall>p. valid_idx (shape out) p \<longrightarrow>
                 elem out p =
                   (let G = {i. i < shape src ! d \<and> elem index [i] = int (p ! d)};
                        S = (\<Sum>i \<in> G. elem src (p[d := i]))
                    in if card G = 0 then 0
                       else if is_floating_point src then S / of_nat (card G)
                       else of_int \<lfloor>S / of_nat (card G)\<rfloor>))"
proof -
  let ?n = "shape src ! d"
  obtain k where k0: "0 \<le> k" and rng: "\<forall>i < ?n. 0 \<le> elem index [i] \<and> elem index [i] < k"
    and eq: "scatter_mean src index axis None dim_size = scatter_mean src index axis None (Some k)"
    and dk: "\<forall>k'. dim_size = Some k' \<longrightarrow> k' = k"
  proof (cases dim_size)
    case (Some k)
    from ds have a: "0 \<le> k" and b: "\<forall>i < ?n. 0 \<le> elem index [i] \<and> elem index [i] < k"
      unfolding Some by simp_all
    have e: "scatter_mean src index axis None dim_size = scatter_mean src index axis None (Some k)"
      unfolding Some ..
    have n: "\<forall>k'. dim_size = Some k' \<longrightarrow> k' = k" by (simp add: Some)
    show ?thesis by (rule that[OF a b e n])
  next
    case None
    with ds have ne: "numel src \<noteq> 0" and nn: "\<forall>i < ?n. 0 \<le> elem index [i]" by simp_all
    let ?m = "Max ((\<lambda>i. elem index [i]) ` {..<?n})"
    from max_index_1d[OF rd sh ne] obtain ix where bc: "broadcast index src axis = Inr ix"
      and tm: "tensor_max ix = Inr ?m" and n0: "0 < ?n" by blast
    have le: "elem index [i] \<le> ?m" if "i < ?n" for i
      using that by (intro Max_ge) auto
    have "0 \<le> elem index [0]" using nn n0 by blast
    also have "\<dots> \<le> ?m" using le n0 by blast
    finally have m0: "0 \<le> ?m + 1" by simp
    have r: "\<forall>i < ?n. 0 \<le> elem index [i] \<and> elem index [i] < ?m + 1"
    proof (intro allI impI)
      fix i assume i: "i < ?n"
      from nn i have "0 \<le> elem index [i]" by blast
      moreover from le[OF i] have "elem index [i] < ?m + 1" by linarith
      ultimately show "0 \<le> elem index [i] \<and> elem index [i] < ?m + 1" by blast
    qed
    have e: "scatter_mean src index axis None dim_size
          = scatter_mean src index axis None (Some (?m + 1))"
      unfolding None scatter_mean_def scatter_sum_None[OF bc ne tm] ..
    have n: "\<forall>k'. dim_size = Some k' \<longrightarrow> k' = ?m + 1" by (simp add: None)
    show ?thesis by (rule that[OF m0 r e n])
  qed
  from scatter_mean_1d[OF rd sh k0 rng] obtain out where
    o: "scatter_mean src index axis None (Some k) = Inr out" and
    s: "shape out = (shape src)[d := nat k]" and
    v: "\<forall>p. valid_idx (shape out) p \<longrightarrow>
                 elem out p =
                   (let G = {i. i < shape src ! d \<and> elem index [i] = int (p ! d)};
                        S = (\<Sum>i \<in> G. elem src (p[d := i]))
                    in if card G = 0 then 0
                       else if is_floating_point src then S / of_nat (card G)
                       else of_int \<lfloor>S / of_nat (card G)\<rfloor>)"
    by blast
  have se: "\<exists>e. shape out = (shape src)[d := e] \<and> (\<forall>k. dim_size = Some k \<longrightarrow> e = nat k)"
    using s dk by blast
  have o': "scatter_mean src index axis None dim_size = Inr out" unfolding eq by (rule o)
  from o' se v show ?thesis by blast
qed

text \<open>
  C3. The claim takes the mean of a group to be the sum of the group divided by the
  number of elements that went into it, for every index buffer. \<^verbatim>\<open>scatter_mean\<close> counts
  the elements with the index as the caller gave it (\<^verbatim>\<open>torch.ones(index.size())\<close>),
  while \<^verbatim>\<open>scatter_sum\<close> adds them with the index broadcast to the value tensor. For
  the values \<open>[1, 3]\<close> and the index \<open>[0]\<close>, which \<^verbatim>\<open>broadcast\<close> expands to \<open>[0, 0]\<close>,
  both values go into group 0 and the sum is 4, but the count is 1: the mean
  returned is 4, where the index \<open>[0, 0]\<close> gives 2.
\<close>

theorem scatter_mean_failing_input:
  "result_elem (scatter_sum (tensor1 [1, 3] True :: rat tensor) (tensor1 [0] False) 0 None None) [0]
     = Some 4
   \<and> result_elem (scatter_mean (tensor1 [1, 3] True :: rat tensor) (tensor1 [0] False) 0 None None) [0]
     = Some 4
   \<and> result_elem (scatter_mean (tensor1 [1, 3] True :: rat tensor) (tensor1 [0, 0] False) 0 None None) [0]
     = Some 2"
  by code_simp

section \<open>The two spellings of the sum\<close>

text \<open>
  C10. \<^verbatim>\<open>scatter_add\<close> returns what \<^verbatim>\<open>scatter_sum\<close> returns, and \<^verbatim>\<open>scatter\<close> with the
  reduction \<^verbatim>\<open>"add"\<close> returns what it returns with \<^verbatim>\<open>"sum"\<close>, which is again the
  result of \<^verbatim>\<open>scatter_sum\<close>: for every value tensor, index tensor, axis, \<open>out\<close> and
  \<open>dim_size\<close>, errors included.
\<close>

theorem scatter_add_alias:
  "scatter_add src index axis out dim_size = scatter_sum src index axis out dim_size
   \<and> scatter ops src index axis out dim_size ''add''
       = scatter ops src index axis out dim_size ''sum''
   \<and> scatter ops src index axis out dim_size ''add'' = scatter_add src index axis out dim_size"
  by (simp add: scatter_add_def scatter_def)

end
